(* ===== verification/Prelude.thy ===== *)
theory Prelude
  imports Main "HOL-Library.Char_ord" "HOL-Library.List_Lexorder"
    "HOL-Library.Product_Lexorder"
begin

text \<open>
  What every theory of the development shares: Go's strings and byte slices as \<open>string\<close>
  (a \<open>char\<close> is one byte, so \<open>length\<close> is Go's \<open>len\<close> and the order of
  \<open>HOL-Library.List_Lexorder\<close> is Go's byte-wise string order), the error values of the
  program, the readings a call takes from outside the program (clock and ULID source), decimal
  rendering, and generic lemmas on lists, sorting and prefixes.
\<close>

named_theorems store_defs \<open>definitions of the store operations\<close>
named_theorems route_defs \<open>definitions of the HTTP handlers\<close>

section \<open>Error values\<close>

text \<open>
  Every error value the program creates or passes on. The first five are the error types of
  the web framework the handlers construct; \<open>SealError\<close>, \<open>StoreError\<close> and
  \<open>ConfigError\<close> carry the text of \<^verbatim>\<open>errors.New\<close> / \<^verbatim>\<open>fmt.Errorf\<close>;
  \<open>ExternalError\<close> is an error returned by code outside the repository.
\<close>

datatype error =
    ParamRequiredError string
  | ParamInvalidError string string
  | BadRequestError string
  | ForbiddenError
  | NotFoundError string
  | SealError string
  | StoreError string
  | ConfigError string
  | ExternalError string

section \<open>Decimal digits\<close>

definition digit :: "nat \<Rightarrow> char" where
  "digit n = char_of (48 + n)"

definition digit_value :: "char \<Rightarrow> nat" where
  "digit_value c = of_char c - 48"

definition is_digit :: "char \<Rightarrow> bool" where
  "is_digit c \<longleftrightarrow> 48 \<le> (of_char c :: nat) \<and> (of_char c :: nat) \<le> 57"

lemma of_char_digit [simp]: "n < 10 \<Longrightarrow> (of_char (digit n) :: nat) = 48 + n"
  by (simp add: digit_def)

lemma is_digit_digit [simp]: "n < 10 \<Longrightarrow> is_digit (digit n)"
  by (simp add: is_digit_def)

lemma digit_value_digit [simp]: "n < 10 \<Longrightarrow> digit_value (digit n) = n"
  by (simp add: digit_value_def)

lemma digit_value_less [simp]: "is_digit c \<Longrightarrow> digit_value c < 10"
  by (auto simp: is_digit_def digit_value_def)

lemma digit_of_value [simp]: "is_digit c \<Longrightarrow> digit (digit_value c) = c"
  by (simp add: is_digit_def digit_value_def digit_def)

lemma digit_inject [simp]: "m < 10 \<Longrightarrow> n < 10 \<Longrightarrow> digit m = digit n \<longleftrightarrow> m = n"
  by (metis digit_value_digit)

lemma digit_less [simp]: "m < 10 \<Longrightarrow> n < 10 \<Longrightarrow> digit m < digit n \<longleftrightarrow> m < n"
  by (simp add: less_char_def)

text \<open>\<open>decimal n\<close> is \<^verbatim>\<open>fmt\<close>'s \<^verbatim>\<open>%d\<close> of a non-negative number.\<close>

fun decimal :: "nat \<Rightarrow> string" where
  "decimal n = (if n < 10 then [digit n] else decimal (n div 10) @ [digit (n mod 10)])"

declare decimal.simps [simp del]

lemma decimal_not_Nil [simp]: "decimal n \<noteq> []"
  by (subst decimal.simps) simp

lemma decimal_digits: "\<forall>c \<in> set (decimal n). is_digit c"
proof (induction n rule: decimal.induct)
  case (1 n)
  then show ?case
    by (cases "n < 10") (auto simp: decimal.simps [of n])
qed

definition number :: "string \<Rightarrow> nat" where
  "number s = foldl (\<lambda>n c. 10 * n + digit_value c) 0 s"

lemma number_snoc [simp]: "number (s @ [c]) = 10 * number s + digit_value c"
  by (simp add: number_def)

lemma number_decimal [simp]: "number (decimal n) = n"
proof (induction n rule: decimal.induct)
  case (1 n)
  then show ?case
    by (cases "n < 10") (simp_all add: decimal.simps [of n], simp add: number_def)
qed

lemma decimal_inject [simp]: "decimal m = decimal n \<longleftrightarrow> m = n"
  by (metis number_decimal)

section \<open>Lists\<close>

lemma takeWhile_stop:
  assumes "\<forall>c \<in> set xs. P c" and "r = [] \<or> \<not> P (hd r)"
  shows "takeWhile P (xs @ r) = xs"
  using assms by (cases r) (auto simp: takeWhile_append)

lemma prefix_code_stop:
  assumes "xs @ r = ys @ r'" and "\<forall>c \<in> set xs. P c" and "\<forall>c \<in> set ys. P c"
    and "r = [] \<or> \<not> P (hd r)" and "r' = [] \<or> \<not> P (hd r')"
  shows "xs = ys \<and> r = r'"
  using takeWhile_stop [OF assms(2,4)] takeWhile_stop [OF assms(3,5)] assms(1) by auto

lemma sort_key_map_snd:
  "sort_key fst (map (\<lambda>(k, v). (k, f v)) xs) = map (\<lambda>(k, v). (k, f v)) (sort_key fst xs)"
proof (induction xs)
  case (Cons x xs)
  have "insort_key fst ((\<lambda>(k, v). (k, f v)) x) (map (\<lambda>(k, v). (k, f v)) ys) =
      map (\<lambda>(k, v). (k, f v)) (insort_key fst x ys)" for ys
    by (induction ys) (auto split: prod.splits)
  with Cons show ?case by simp
qed simp

end
