(* ===== verification/Go_Strings.thy ===== *)
theory Go_Strings
  imports Prelude
begin

text \<open>
  Go strings as byte sequences read as UTF-8, the way \<^verbatim>\<open>range\<close>, \<^verbatim>\<open>[]rune(s)\<close>,
  \<^verbatim>\<open>string(runes)\<close> and the \<^verbatim>\<open>strings\<close> package read them. Decoding follows
  \<^verbatim>\<open>utf8.DecodeRuneInString\<close>: a byte that starts no well-formed sequence is one
  \<open>Invalid\<close> token and reads as U+FFFD. The lemmas show that the tokens of a string
  concatenate to it, that decoding inverts encoding, and that encoding the runes of a valid
  string gives it back.
\<close>

section \<open>UTF-8\<close>

datatype token = Rune nat string | Invalid char

definition cont :: "char \<Rightarrow> bool" where
  "cont c \<longleftrightarrow> 128 \<le> (of_char c :: nat) \<and> (of_char c :: nat) < 192"

definition low6 :: "char \<Rightarrow> nat" where
  "low6 c = of_char c - 128"

text \<open>The range of the second byte after the first byte \<open>x\<close> of a sequence of three or four.\<close>

definition second_ok :: "nat \<Rightarrow> char \<Rightarrow> bool" where
  "second_ok x c \<longleftrightarrow> cont c \<and>
     (x = 224 \<longrightarrow> 160 \<le> (of_char c :: nat)) \<and> (x = 237 \<longrightarrow> (of_char c :: nat) < 160) \<and>
     (x = 240 \<longrightarrow> 144 \<le> (of_char c :: nat)) \<and> (x = 244 \<longrightarrow> (of_char c :: nat) < 144)"

definition next_token :: "char \<Rightarrow> string \<Rightarrow> token \<times> string" where
  "next_token b r =
     (let x = (of_char b :: nat)
      in if x < 128 then (Rune x [b], r)
         else if 194 \<le> x \<and> x < 224 then
           (case r of
              c # r' \<Rightarrow> if cont c then (Rune ((x - 192) * 64 + low6 c) [b, c], r') else (Invalid b, r)
            | _ \<Rightarrow> (Invalid b, r))
         else if 224 \<le> x \<and> x < 240 then
           (case r of
              c # d # r' \<Rightarrow>
                if second_ok x c \<and> cont d
                then (Rune ((x - 224) * 4096 + low6 c * 64 + low6 d) [b, c, d], r') else (Invalid b, r)
            | _ \<Rightarrow> (Invalid b, r))
         else if 240 \<le> x \<and> x < 245 then
           (case r of
              c # d # e # r' \<Rightarrow>
                if second_ok x c \<and> cont d \<and> cont e
                then (Rune ((x - 240) * 262144 + low6 c * 4096 + low6 d * 64 + low6 e) [b, c, d, e], r')
                else (Invalid b, r)
            | _ \<Rightarrow> (Invalid b, r))
         else (Invalid b, r))"

lemma next_token_length: "next_token b r = (t, r') \<Longrightarrow> length r' \<le> length r"
  by (auto simp: next_token_def Let_def split: if_splits list.splits)

function tokens :: "string \<Rightarrow> token list" where
  "tokens [] = []"
| "tokens (b # r) = fst (next_token b r) # tokens (snd (next_token b r))"
  by pat_completeness auto
termination
  by (relation "measure length")
    (auto simp: less_Suc_eq_le intro: next_token_length [OF surjective_pairing])

fun rune_of :: "token \<Rightarrow> nat" where
  "rune_of (Rune c bs) = c"
| "rune_of (Invalid b) = 65533"

fun bytes_of :: "token \<Rightarrow> string" where
  "bytes_of (Rune c bs) = bs"
| "bytes_of (Invalid b) = [b]"

fun is_rune :: "token \<Rightarrow> bool" where
  "is_rune (Rune c bs) = True"
| "is_rune (Invalid b) = False"

definition runes :: "string \<Rightarrow> nat list" where
  "runes s = map rune_of (tokens s)"

definition valid_utf8 :: "string \<Rightarrow> bool" where
  "valid_utf8 s \<longleftrightarrow> list_all is_rune (tokens s)"

definition scalar :: "nat \<Rightarrow> bool" where
  "scalar c \<longleftrightarrow> c < 1114112 \<and> \<not> (55296 \<le> c \<and> c < 57344)"

definition encode_rune :: "nat \<Rightarrow> string" where
  "encode_rune c0 =
     (let c = (if scalar c0 then c0 else 65533)
      in if c < 128 then [char_of c]
         else if c < 2048 then [char_of (192 + c div 64), char_of (128 + c mod 64)]
         else if c < 65536 then
           [char_of (224 + c div 4096), char_of (128 + c div 64 mod 64), char_of (128 + c mod 64)]
         else [char_of (240 + c div 262144), char_of (128 + c div 4096 mod 64),
               char_of (128 + c div 64 mod 64), char_of (128 + c mod 64)])"

definition string_of_runes :: "nat list \<Rightarrow> string" where
  "string_of_runes rs = concat (map encode_rune rs)"

subsection \<open>Decoding\<close>

lemma next_token_bytes: "bytes_of (fst (next_token b r)) @ snd (next_token b r) = b # r"
  by (auto simp: next_token_def Let_def split: list.splits)

lemma concat_tokens: "concat (map bytes_of (tokens s)) = s"
  by (induction s rule: tokens.induct) (simp_all add: next_token_bytes)

lemma low6_less: "cont c \<Longrightarrow> low6 c < 64"
  by (auto simp: cont_def low6_def)

lemma char_of_low6: "cont c \<Longrightarrow> char_of (128 + low6 c) = c"
  by (simp add: cont_def low6_def)

lemma encode_2:
  assumes "2 \<le> a" "a < 32" "b < 64"
  shows "scalar (a * 64 + b)" and "encode_rune (a * 64 + b) = [char_of (192 + a), char_of (128 + b)]"
  using assms by (simp_all add: scalar_def encode_rune_def)

lemma sixbit:
  fixes a b :: nat
  assumes "b < 64"
  shows "(a * 64 + b) div 64 = a" and "(a * 64 + b) mod 64 = b"
  using assms by simp_all

lemma encode_3:
  assumes "a < 16" "b < 64" "d < 64" "a = 0 \<Longrightarrow> 32 \<le> b" "a = 13 \<Longrightarrow> b < 32"
  shows "scalar (a * 4096 + b * 64 + d)"
    and "encode_rune (a * 4096 + b * 64 + d) = [char_of (224 + a), char_of (128 + b), char_of (128 + d)]"
proof -
  define c where "c = a * 4096 + b * 64 + d"
  have c': "c = (a * 64 + b) * 64 + d" by (simp add: c_def)
  have "c div 64 = a * 64 + b" "c mod 64 = d" unfolding c' by (rule sixbit [OF assms(3)])+
  moreover from this have "c div 4096 = a"
    using sixbit(1) [OF assms(2), of a] div_mult2_eq [of c 64 64] by simp
  moreover have r: "\<not> c < 2048" "c < 65536"
    unfolding c_def using assms by (cases "a = 0"; simp)+
  moreover have sc: "scalar c"
    using assms linorder_less_linear [of a 13] by (auto simp: scalar_def c_def)
  ultimately have "encode_rune c = [char_of (224 + a), char_of (128 + b), char_of (128 + d)]"
    using sixbit(2) [OF assms(2), of a] by (simp add: encode_rune_def Let_def)
  with sc show "scalar (a * 4096 + b * 64 + d)"
    and "encode_rune (a * 4096 + b * 64 + d) = [char_of (224 + a), char_of (128 + b), char_of (128 + d)]"
    by (simp_all add: c_def)
qed

lemma encode_4:
  assumes "a < 5" "b < 64" "d < 64" "e < 64" "a = 0 \<Longrightarrow> 16 \<le> b" "a = 4 \<Longrightarrow> b < 16"
  shows "scalar (a * 262144 + b * 4096 + d * 64 + e)"
    and "encode_rune (a * 262144 + b * 4096 + d * 64 + e) =
      [char_of (240 + a), char_of (128 + b), char_of (128 + d), char_of (128 + e)]"
proof -
  define c where "c = a * 262144 + b * 4096 + d * 64 + e"
  have c': "c = ((a * 64 + b) * 64 + d) * 64 + e" by (simp add: c_def)
  have 1: "c div 64 = (a * 64 + b) * 64 + d" "c mod 64 = e"
    unfolding c' by (rule sixbit [OF assms(4)])+
  then have 2: "c div 4096 = a * 64 + b"
    using sixbit(1) [OF assms(3)] div_mult2_eq [of c 64 64] by simp
  then have 3: "c div 262144 = a"
    using sixbit(1) [OF assms(2)] div_mult2_eq [of c 4096 64] by simp
  have r: "\<not> c < 65536" "c < 1114112"
    unfolding c_def using assms by (cases "a = 0"; cases "a = 4"; simp)+
  then have sc: "scalar c" by (simp add: scalar_def)
  have "encode_rune c = [char_of (240 + a), char_of (128 + b), char_of (128 + d), char_of (128 + e)]"
    using sixbit(2) [OF assms(2), of a] sixbit(2) [OF assms(3), of "a * 64 + b"] r sc 1 2 3
    by (simp add: encode_rune_def Let_def)
  with sc show "scalar (a * 262144 + b * 4096 + d * 64 + e)"
    and "encode_rune (a * 262144 + b * 4096 + d * 64 + e) =
      [char_of (240 + a), char_of (128 + b), char_of (128 + d), char_of (128 + e)]"
    by (simp_all add: c_def)
qed

lemma next_token_encode:
  assumes "next_token b r = (Rune c bs, r')"
  shows "scalar c \<and> encode_rune c = bs"
proof -
  define x where "x = (of_char b :: nat)"
  have b: "char_of x = b" by (simp add: x_def)
  consider (1) "x < 128" "c = x" "bs = [b]"
    | (2) d where "194 \<le> x" "x < 224" "cont d" "c = (x - 192) * 64 + low6 d" "bs = [b, d]"
    | (3) d e where "224 \<le> x" "x < 240" "second_ok x d" "cont e"
        "c = (x - 224) * 4096 + low6 d * 64 + low6 e" "bs = [b, d, e]"
    | (4) d e f where "240 \<le> x" "x < 245" "second_ok x d" "cont e" "cont f"
        "c = (x - 240) * 262144 + low6 d * 4096 + low6 e * 64 + low6 f" "bs = [b, d, e, f]"
    using assms by (auto simp: next_token_def Let_def x_def split: if_splits list.splits)
  then show ?thesis
  proof cases
    case 1
    then show ?thesis by (simp add: scalar_def encode_rune_def b)
  next
    case 2
    with b show ?thesis
      using encode_2 [of "x - 192" "low6 d"] low6_less [of d] by (simp add: char_of_low6)
  next
    case 3
    have "cont d" "x - 224 = 0 \<Longrightarrow> 32 \<le> low6 d" "x - 224 = 13 \<Longrightarrow> low6 d < 32"
      using 3(1-3) by (auto simp: second_ok_def low6_def cont_def)
    with 3 b show ?thesis
      using encode_3 [of "x - 224" "low6 d" "low6 e"] low6_less by (simp add: char_of_low6)
  next
    case 4
    have "cont d" "x - 240 = 0 \<Longrightarrow> 16 \<le> low6 d" "x - 240 = 4 \<Longrightarrow> low6 d < 16"
      using 4(1-3) by (auto simp: second_ok_def low6_def cont_def)
    with 4 b show ?thesis
      using encode_4 [of "x - 240" "low6 d" "low6 e" "low6 f"] low6_less by (simp add: char_of_low6)
  qed
qed

lemma tokens_encode: "Rune c bs \<in> set (tokens s) \<Longrightarrow> scalar c \<and> encode_rune c = bs"
proof (induction s rule: tokens.induct)
  case (2 b r)
  then show ?case
    using next_token_encode [of b r c bs "snd (next_token b r)"] by (auto simp: prod_eq_iff)
qed simp

text \<open>Every rune of a string is a Unicode scalar value, and a valid string is what its runes
  encode to.\<close>

lemma runes_scalar: "c \<in> set (runes s) \<Longrightarrow> scalar c"
proof -
  assume "c \<in> set (runes s)"
  then obtain t where "t \<in> set (tokens s)" "c = rune_of t" by (auto simp: runes_def)
  then show ?thesis using tokens_encode by (cases t rule: token.exhaust) (auto simp: scalar_def)
qed

lemma string_of_runes_runes: "valid_utf8 s \<Longrightarrow> string_of_runes (runes s) = s"
proof -
  assume "valid_utf8 s"
  then have "encode_rune (rune_of t) = bytes_of t" if "t \<in> set (tokens s)" for t
    using that tokens_encode by (cases t rule: token.exhaust) (auto simp: valid_utf8_def list_all_iff)
  then have "string_of_runes (runes s) = concat (map bytes_of (tokens s))"
    by (simp add: string_of_runes_def runes_def cong: map_cong)
  then show ?thesis by (simp add: concat_tokens)
qed

subsection \<open>Decoding inverts encoding\<close>

lemma low6_char_of [simp]: "b < 64 \<Longrightarrow> low6 (char_of (128 + b)) = b"
  and cont_char_of [simp]: "b < 64 \<Longrightarrow> cont (char_of (128 + b))"
  by (simp_all add: low6_def cont_def)

lemma scalar_cases:
  assumes "scalar c"
  obtains (1) "c < 128"
    | (2) a b where "c = a * 64 + b" "2 \<le> a" "a < 32" "b < 64"
    | (3) a b d where "c = a * 4096 + b * 64 + d" "a < 16" "b < 64" "d < 64"
        "a = 0 \<Longrightarrow> 32 \<le> b" "a = 13 \<Longrightarrow> b < 32"
    | (4) a b d e where "c = a * 262144 + b * 4096 + d * 64 + e" "a < 5" "b < 64" "d < 64" "e < 64"
        "a = 0 \<Longrightarrow> 16 \<le> b" "a = 4 \<Longrightarrow> b < 16"
proof -
  have c: "c = c div 64 * 64 + c mod 64" "c div 64 = c div 64 div 64 * 64 + c div 64 mod 64"
    "c div 64 div 64 = c div 64 div 64 div 64 * 64 + c div 64 div 64 mod 64" by simp_all
  have m: "c mod 64 < 64" "c div 64 mod 64 < 64" "c div 64 div 64 mod 64 < 64" by simp_all
  consider "c < 128" | "128 \<le> c" "c < 2048" | "2048 \<le> c" "c < 65536" | "65536 \<le> c" by linarith
  then show thesis
  proof cases
    case 1
    then show thesis by (rule that(1))
  next
    case 2
    then show thesis using that(2) [OF c(1)] c(1) m(1) by linarith
  next
    case 3
    have "c = c div 64 div 64 * 4096 + c div 64 mod 64 * 64 + c mod 64" using c(1,2) by linarith
    then show thesis
      using that(3) [of "c div 64 div 64" "c div 64 mod 64" "c mod 64"] 3 m assms
      unfolding scalar_def by linarith
  next
    case 4
    have "c = c div 64 div 64 div 64 * 262144 + c div 64 div 64 mod 64 * 4096 + c div 64 mod 64 * 64 + c mod 64"
      using c by linarith
    then show thesis
      using that(4) [of "c div 64 div 64 div 64" "c div 64 div 64 mod 64" "c div 64 mod 64" "c mod 64"] 4 m assms
      unfolding scalar_def by linarith
  qed
qed

lemma encode_rune_high_bytes:
  assumes "scalar c" and "\<not> c < 128"
  shows "\<forall>b \<in> set (encode_rune c). 128 \<le> (of_char b :: nat)"
  using assms(1)
  by (cases c rule: scalar_cases)
    (use assms in \<open>auto simp: encode_2 encode_3 encode_4 simp del: add_mult_distrib\<close>)

lemma tokens_encode_append:
  assumes "scalar c"
  shows "tokens (encode_rune c @ r) = Rune c (encode_rune c) # tokens r"
  using assms
proof (cases c rule: scalar_cases)
  case 1
  then show ?thesis using assms by (simp add: encode_rune_def next_token_def)
next
  case (2 a b)
  then show ?thesis
    unfolding \<open>c = a * 64 + b\<close> encode_2(2) [OF 2(2-4)] by (simp add: next_token_def)
next
  case (3 a b d)
  have "second_ok (224 + a) (char_of (128 + b))"
    using 3(2-6) by (auto simp: second_ok_def)
  moreover have "encode_rune c = [char_of (224 + a), char_of (128 + b), char_of (128 + d)]"
    unfolding 3(1) by (rule encode_3) (use 3 in auto)
  ultimately show ?thesis using 3(1-4) by (simp add: next_token_def)
next
  case (4 a b d e)
  have "second_ok (240 + a) (char_of (128 + b))"
    using 4(2-7) by (auto simp: second_ok_def)
  moreover have "encode_rune c = [char_of (240 + a), char_of (128 + b), char_of (128 + d), char_of (128 + e)]"
    unfolding 4(1) by (rule encode_4) (use 4 in auto)
  ultimately show ?thesis using 4(1-5) by (simp add: next_token_def)
qed

lemma tokens_string_of_runes:
  "\<forall>c \<in> set rs. scalar c \<Longrightarrow> tokens (string_of_runes rs) = map (\<lambda>c. Rune c (encode_rune c)) rs"
  by (induction rs) (simp_all add: string_of_runes_def tokens_encode_append)

lemma runes_string_of_runes: "\<forall>c \<in> set rs. scalar c \<Longrightarrow> runes (string_of_runes rs) = rs"
  by (simp add: runes_def tokens_string_of_runes o_def)

lemma valid_string_of_runes: "\<forall>c \<in> set rs. scalar c \<Longrightarrow> valid_utf8 (string_of_runes rs)"
  by (auto simp: valid_utf8_def tokens_string_of_runes list_all_iff)

text \<open>ASCII strings are their own runes.\<close>

lemma tokens_ascii: "\<forall>c \<in> set s. (of_char c :: nat) < 128 \<Longrightarrow> tokens s = map (\<lambda>c. Rune (of_char c) [c]) s"
  by (induction s) (simp_all add: next_token_def)

lemma next_token_Invalid: "fst (next_token b r) = Invalid c \<Longrightarrow> 128 \<le> (of_char c :: nat)"
  by (auto simp: next_token_def Let_def split: if_splits list.splits)

lemma tokens_Invalid: "Invalid c \<in> set (tokens s) \<Longrightarrow> 128 \<le> (of_char c :: nat)"
  by (induction s rule: tokens.induct) (auto dest: next_token_Invalid [OF sym] next_token_Invalid)

text \<open>An ASCII character of a string, valid or not, is a rune of its own.\<close>

lemma ascii_in_runes:
  assumes "r < 128"
  shows "r \<in> set (runes s) \<longleftrightarrow> char_of r \<in> set s"
proof
  assume "r \<in> set (runes s)"
  then obtain t where t: "t \<in> set (tokens s)" "rune_of t = r" by (auto simp: runes_def)
  with assms obtain bs where "t = Rune r bs" by (cases t rule: token.exhaust) auto
  with t tokens_encode have "bs = encode_rune r" "scalar r" by auto
  with assms have "bytes_of t = [char_of r]" using \<open>t = Rune r bs\<close> by (simp add: encode_rune_def)
  then have "char_of r \<in> set (concat (map bytes_of (tokens s)))" using t(1) by force
  then show "char_of r \<in> set s" by (simp add: concat_tokens)
next
  assume "char_of r \<in> set s"
  then have "char_of r \<in> set (concat (map bytes_of (tokens s)))" by (simp add: concat_tokens)
  then obtain t where t: "t \<in> set (tokens s)" "char_of r \<in> set (bytes_of t)" by auto
  have c: "(of_char (char_of r) :: nat) = r" using assms by simp
  obtain r' bs where r': "t = Rune r' bs"
    using t tokens_Invalid c assms by (cases t rule: token.exhaust) fastforce+
  then have e: "scalar r'" "encode_rune r' = bs" using tokens_encode t(1) by auto
  have "r' < 128"
  proof (rule ccontr)
    assume "\<not> r' < 128"
    with encode_rune_high_bytes [OF e(1)] t(2) r' e(2) c assms show False by fastforce
  qed
  then have "r' = r" using t(2) r' e c by (auto simp: encode_rune_def)
  then show "r \<in> set (runes s)" using t(1) r' by (force simp: runes_def)
qed

lemma runes_below_128:
  assumes "\<forall>r \<in> set (runes s). r < 128"
  shows "\<forall>c \<in> set s. (of_char c :: nat) < 128"
proof
  fix c assume "c \<in> set s"
  then have "c \<in> set (concat (map bytes_of (tokens s)))" by (simp add: concat_tokens)
  then obtain t where t: "t \<in> set (tokens s)" "c \<in> set (bytes_of t)" by auto
  then have "rune_of t < 128" using assms by (auto simp: runes_def)
  then obtain r bs where r: "t = Rune r bs" "r < 128" by (cases t rule: token.exhaust) auto
  then have "bs = encode_rune r" "scalar r" using tokens_encode t(1) by auto
  with r t(2) show "(of_char c :: nat) < 128" by (auto simp: encode_rune_def)
qed

lemma valid_ascii: "\<forall>c \<in> set s. (of_char c :: nat) < 128 \<Longrightarrow> valid_utf8 s"
  by (auto simp: valid_utf8_def tokens_ascii list_all_iff)

section \<open>The strings package\<close>

text \<open>\<^verbatim>\<open>strings.ContainsAny\<close>, \<^verbatim>\<open>strings.Contains\<close> and
  \<^verbatim>\<open>strings.ToLower\<close>. The Unicode lower-case table beyond ASCII is the argument
  \<open>lower\<close>; nothing depends on it.\<close>

definition ContainsAny :: "string \<Rightarrow> string \<Rightarrow> bool" where
  "ContainsAny s chars \<longleftrightarrow> list_ex (\<lambda>r. r \<in> set (runes chars)) (runes s)"

fun Contains :: "string \<Rightarrow> string \<Rightarrow> bool" where
  "Contains [] sub = (sub = [])"
| "Contains (c # s) sub = (take (length sub) (c # s) = sub \<or> Contains s sub)"

definition lower_rune :: "(nat \<Rightarrow> nat) \<Rightarrow> nat \<Rightarrow> nat" where
  "lower_rune lower r = (if r < 128 then (if 65 \<le> r \<and> r \<le> 90 then r + 32 else r) else lower r)"

definition ToLower :: "(nat \<Rightarrow> nat) \<Rightarrow> string \<Rightarrow> string" where
  "ToLower lower s = string_of_runes (map (lower_rune lower) (runes s))"

text \<open>\<^verbatim>\<open>unicode.IsSpace\<close> and \<^verbatim>\<open>strings.TrimSpace\<close>.\<close>

definition IsSpace :: "nat \<Rightarrow> bool" where
  "IsSpace r \<longleftrightarrow> (9 \<le> r \<and> r \<le> 13) \<or> r = 32 \<or> r = 133 \<or> r = 160 \<or> r = 5760 \<or>
     (8192 \<le> r \<and> r \<le> 8202) \<or> r = 8232 \<or> r = 8233 \<or> r = 8239 \<or> r = 8287 \<or> r = 12288"

definition TrimSpace :: "string \<Rightarrow> string" where
  "TrimSpace s =
     (let sp = (\<lambda>t. IsSpace (rune_of t))
      in concat (map bytes_of (rev (dropWhile sp (rev (dropWhile sp (tokens s)))))))"

lemma Contains_iff: "Contains s sub \<longleftrightarrow> (\<exists>u v. s = u @ sub @ v)"
proof (induction s)
  case (Cons c s)
  have "take (length sub) (c # s) = sub \<longleftrightarrow> (\<exists>v. c # s = sub @ v)"
    by (metis append_eq_conv_conj append_take_drop_id)
  with Cons show ?case
    by (auto simp: Cons_eq_append_conv)
qed simp

lemma tokens_not_Nil: "t \<in> set (tokens s) \<Longrightarrow> bytes_of t \<noteq> []"
proof (induction s rule: tokens.induct)
  case (2 b r)
  have "bytes_of (fst (next_token b r)) \<noteq> []"
    by (auto simp: next_token_def Let_def split: list.splits)
  with 2 show ?case by auto
qed simp

lemma all_dropWhile: "(\<forall>x \<in> set (dropWhile P xs). P x) \<longleftrightarrow> (\<forall>x \<in> set xs. P x)"
  by (induction xs) auto

lemma set_dropWhile_subset: "set (dropWhile P xs) \<subseteq> set xs"
  by (auto dest: set_dropWhileD)

lemma concat_map_Nil: "\<forall>x \<in> set xs. f x \<noteq> [] \<Longrightarrow> concat (map f xs) = [] \<longleftrightarrow> xs = []"
  by (cases xs) auto

lemma TrimSpace_Nil_iff: "TrimSpace s = [] \<longleftrightarrow> (\<forall>r \<in> set (runes s). IsSpace r)"
proof -
  let ?sp = "\<lambda>t. IsSpace (rune_of t)"
  let ?ts = "rev (dropWhile ?sp (rev (dropWhile ?sp (tokens s))))"
  have "set ?ts \<subseteq> set (tokens s)"
    unfolding set_rev by (rule subset_trans [OF set_dropWhile_subset])
      (simp add: set_dropWhile_subset)
  then have "\<forall>t \<in> set ?ts. bytes_of t \<noteq> []" using tokens_not_Nil by blast
  then have "TrimSpace s = [] \<longleftrightarrow> ?ts = []"
    unfolding TrimSpace_def Let_def by (rule concat_map_Nil)
  also have "\<dots> \<longleftrightarrow> (\<forall>t \<in> set (dropWhile ?sp (tokens s)). ?sp t)"
    by (simp only: rev_is_Nil_conv dropWhile_eq_Nil_conv set_rev)
  also have "\<dots> \<longleftrightarrow> (\<forall>t \<in> set (tokens s). ?sp t)" by (rule all_dropWhile)
  finally show ?thesis by (simp add: runes_def)
qed

end
