(* ===== verification/Config.thy ===== *)
theory Config
  imports Go_Strings
begin

text \<open>
  \<^verbatim>\<open>config.go\<close> and \<^verbatim>\<open>secretfile.go\<close>. The base and auth sub-configurations belong
  to other packages and only their validation is called; the struct validator that reads the
  \<^verbatim>\<open>validate\<close> tags is outside the repository too. All three are fields of
  \<open>validators\<close>, and \<open>tags_hold\<close> states what the tags of \<^verbatim>\<open>Configuration\<close> demand.
  The calls \<^verbatim>\<open>Bind\<close> makes on the configuration reader are a list of \<open>viper_call\<close>s.
\<close>

record Configuration =
  StoreDSN :: string
  SealKey :: string
  cfg_System :: string
  RetentionInterval :: int
  RetentionWindow :: int
  VerifyRetentionDays :: int

definition StoreBackendPostgres :: string where "StoreBackendPostgres = ''postgres''"
definition StoreBackendMemory :: string where "StoreBackendMemory = ''memory''"

text \<open>\<^verbatim>\<open>NewConfiguration\<close>: every field of its own at its zero value.\<close>

definition NewConfiguration :: Configuration where
  "NewConfiguration = \<lparr>StoreDSN = [], SealKey = [], cfg_System = [], RetentionInterval = 0,
     RetentionWindow = 0, VerifyRetentionDays = 0\<rparr>"

section \<open>Binding\<close>

datatype setting = SString string | SDuration int | SInt int
datatype viper_call = SetDefault string setting | BindEnv string string

definition hour_ns :: int where "hour_ns = 3600 * 10 ^ 9"

text \<open>\<^verbatim>\<open>Bind\<close> after the two calls into other packages; \<open>secret\<close> is
  \<^verbatim>\<open>LoadRemoteSecret\<close>.\<close>

definition secret_default :: "(string \<Rightarrow> error + string) \<Rightarrow> string \<Rightarrow> string \<Rightarrow> viper_call list" where
  "secret_default secret name setting =
     (case secret name of
        Inl err \<Rightarrow> []
      | Inr v \<Rightarrow> if v \<noteq> [] then [SetDefault setting (SString v)] else [])"

definition Bind :: "(string \<Rightarrow> error + string) \<Rightarrow> viper_call list" where
  "Bind secret =
     [SetDefault ''access_audit_system'' (SString ''default''),
      SetDefault ''access_audit_retention_interval'' (SDuration (24 * hour_ns)),
      SetDefault ''access_audit_retention_window'' (SDuration (365 * 24 * hour_ns)),
      SetDefault ''verify_audit_retention_days'' (SInt 90)] @
     secret_default secret ''ACCESS_AUDIT_SEAL_KEY'' ''access_audit_seal_key'' @
     secret_default secret ''ACCESS_AUDIT_STORE_DSN'' ''access_audit_store_dsn'' @
     [BindEnv ''access_audit_store_dsn'' ''ACCESS_AUDIT_STORE_DSN'',
      BindEnv ''access_audit_seal_key'' ''ACCESS_AUDIT_SEAL_KEY'',
      BindEnv ''access_audit_system'' ''ACCESS_AUDIT_SYSTEM'',
      BindEnv ''access_audit_retention_interval'' ''ACCESS_AUDIT_RETENTION_INTERVAL'',
      BindEnv ''access_audit_retention_window'' ''ACCESS_AUDIT_RETENTION_WINDOW'',
      BindEnv ''verify_audit_retention_days'' ''VERIFY_AUDIT_RETENTION_DAYS'']"

section \<open>Validation\<close>

definition refuseEmptyFileSecret :: "(string \<Rightarrow> string) \<Rightarrow> string \<Rightarrow> string \<Rightarrow> error option" where
  "refuseEmptyFileSecret getenv name value =
     (if getenv (name @ ''_FILE'') \<noteq> [] \<and> TrimSpace value = []
      then Some (ConfigError (name @ ''_FILE is set but gives no value: the file is missing or empty''))
      else None)"

record validators =
  Getenv :: "string \<Rightarrow> string"
  base_Validate :: "error option"
  Struct :: "Configuration \<Rightarrow> error option"
  auth_Validate :: "error option"

definition cfg_Validate :: "validators \<Rightarrow> Configuration \<Rightarrow> error option" where
  "cfg_Validate v c =
     (case refuseEmptyFileSecret (Getenv v) ''ACCESS_AUDIT_STORE_DSN'' (StoreDSN c) of
        Some err \<Rightarrow> Some err
      | None \<Rightarrow>
          (case base_Validate v of
             Some err \<Rightarrow> Some err
           | None \<Rightarrow>
               (case Struct v c of
                  Some err \<Rightarrow> Some err
                | None \<Rightarrow> auth_Validate v)))"

definition StoreBackend :: "Configuration \<Rightarrow> string" where
  "StoreBackend c = (if StoreDSN c \<noteq> [] then StoreBackendPostgres else StoreBackendMemory)"

definition SealKeyBytes :: "Configuration \<Rightarrow> string" where
  "SealKeyBytes c = SealKey c"

text \<open>What the \<^verbatim>\<open>validate\<close> tags of the fields require (a minimum length counts runes).\<close>

definition tags_hold :: "Configuration \<Rightarrow> bool" where
  "tags_hold c \<longleftrightarrow>
     SealKey c \<noteq> [] \<and> 32 \<le> length (runes (SealKey c)) \<and> cfg_System c \<noteq> [] \<and>
     0 < RetentionInterval c \<and> 0 < RetentionWindow c \<and> 0 < VerifyRetentionDays c"

definition tag_validator :: "validators \<Rightarrow> bool" where
  "tag_validator v \<longleftrightarrow> (\<forall>c. Struct v c = None \<longrightarrow> tags_hold c)"

section \<open>What a valid configuration guarantees\<close>

lemma refuse_None:
  "refuseEmptyFileSecret getenv name value = None \<longleftrightarrow>
     getenv (name @ ''_FILE'') = [] \<or> TrimSpace value \<noteq> []"
  by (auto simp: refuseEmptyFileSecret_def)

lemma cfg_Validate_None:
  "cfg_Validate v c = None \<longleftrightarrow>
     (Getenv v ''ACCESS_AUDIT_STORE_DSN_FILE'' = [] \<or> TrimSpace (StoreDSN c) \<noteq> []) \<and>
     base_Validate v = None \<and> Struct v c = None \<and> auth_Validate v = None"
  using refuse_None [of "Getenv v" "''ACCESS_AUDIT_STORE_DSN''" "StoreDSN c"]
  by (auto simp: cfg_Validate_def split: option.splits)

lemma TrimSpace_empty [simp]: "TrimSpace [] = []"
  by (simp add: TrimSpace_def Let_def)

lemma valid_backend:
  assumes "cfg_Validate v c = None" and "Getenv v ''ACCESS_AUDIT_STORE_DSN_FILE'' \<noteq> []"
  shows "StoreBackend c = StoreBackendPostgres"
  using assms by (auto simp: cfg_Validate_None StoreBackend_def)

end
