(* ===== verification/Go_Time.thy ===== *)
theory Go_Time
  imports Prelude "HOL-Library.Monad_Syntax"
begin

text \<open>
  The part of Go's \<^verbatim>\<open>time\<close> package the service uses. A \<^verbatim>\<open>time.Time\<close> is
  its instant: the nanoseconds since the zero time 0001-01-01T00:00:00Z, an \<open>int\<close> (the code
  compares instants and converts to UTC before it formats, so the location of a value is never
  observed). The calendar is the proleptic Gregorian one, computed with the 400-year cycles of
  \<^verbatim>\<open>time.Time.Date\<close>; formatting covers the layouts \<^verbatim>\<open>2006-01-02\<close>,
  \<^verbatim>\<open>RFC3339\<close> and \<^verbatim>\<open>RFC3339Nano\<close>, parsing the first two. The lemmas show
  that the calendar is a monotone bijection, that formatted dates compare as strings the way the
  dates compare for the years 0 to 9999, and that parsing inverts formatting there.
\<close>

type_synonym time = int
type_synonym duration = int

definition second :: duration where "second = 1000000000"
definition day_ns :: duration where "day_ns = 86400 * second"

definition IsZero :: "time \<Rightarrow> bool" where
  "IsZero t \<longleftrightarrow> t = 0"

section \<open>The calendar\<close>

definition is_leap :: "int \<Rightarrow> bool" where
  "is_leap y \<longleftrightarrow> y mod 4 = 0 \<and> (y mod 100 \<noteq> 0 \<or> y mod 400 = 0)"

definition year_len :: "int \<Rightarrow> int" where
  "year_len y = (if is_leap y then 366 else 365)"

text \<open>Days from 0001-01-01 to the first of January of year \<open>y\<close>.\<close>

definition days_before_year :: "int \<Rightarrow> int" where
  "days_before_year y = 365 * (y - 1) + (y - 1) div 4 - (y - 1) div 100 + (y - 1) div 400"

text \<open>The year and the zero-based day of the year of a day number: 400-, 100-, 4- and 1-year
  cycles are split off, the last 100- and 1-year cycle being one day longer.\<close>

definition year_yday :: "int \<Rightarrow> int \<times> int" where
  "year_yday d =
     (let n400 = d div 146097; d1 = d mod 146097;
          n100 = d1 div 36524 - d1 div 36524 div 4; d2 = d1 - 36524 * n100;
          n4 = d2 div 1461; d3 = d2 mod 1461;
          n1 = d3 div 365 - d3 div 365 div 4
      in (400 * n400 + 100 * n100 + 4 * n4 + n1 + 1, d3 - 365 * n1))"

definition days_before_month :: "bool \<Rightarrow> int \<Rightarrow> int" where
  "days_before_month leap m =
     (if m \<le> 1 then 0 else if m = 2 then 31
      else (if leap then 1 else 0) +
        (if m = 3 then 59 else if m = 4 then 90 else if m = 5 then 120 else if m = 6 then 151
         else if m = 7 then 181 else if m = 8 then 212 else if m = 9 then 243
         else if m = 10 then 273 else if m = 11 then 304 else if m = 12 then 334 else 365))"

definition month_of_yday :: "bool \<Rightarrow> int \<Rightarrow> int" where
  "month_of_yday leap yd =
     (if yd < 31 then 1
      else let d = yd - (if leap then 1 else 0)
        in if d < 59 then 2 else if d < 90 then 3 else if d < 120 then 4 else if d < 151 then 5
           else if d < 181 then 6 else if d < 212 then 7 else if d < 243 then 8
           else if d < 273 then 9 else if d < 304 then 10 else if d < 334 then 11 else 12)"

definition days_in :: "int \<Rightarrow> int \<Rightarrow> int" where
  "days_in m y = days_before_month (is_leap y) (m + 1) - days_before_month (is_leap y) m"

definition days_of_civil :: "int \<Rightarrow> int \<Rightarrow> int \<Rightarrow> int" where
  "days_of_civil y m d = days_before_year y + days_before_month (is_leap y) m + (d - 1)"

definition civil_of_days :: "int \<Rightarrow> int \<times> int \<times> int" where
  "civil_of_days n =
     (let (y, yd) = year_yday n; m = month_of_yday (is_leap y) yd
      in (y, m, yd - days_before_month (is_leap y) m + 1))"

text \<open>\<^verbatim>\<open>t.UTC().Date()\<close> and \<^verbatim>\<open>time.Date(y, m, d, 0, 0, 0, 0, time.UTC)\<close>
  for a month and a day in range.\<close>

definition DateOf :: "time \<Rightarrow> int \<times> int \<times> int" where
  "DateOf t = civil_of_days (t div day_ns)"

definition Date :: "int \<Rightarrow> int \<Rightarrow> int \<Rightarrow> time" where
  "Date y m d = days_of_civil y m d * day_ns"

abbreviation year_of :: "time \<Rightarrow> int" where "year_of t \<equiv> fst (DateOf t)"
abbreviation month_of :: "time \<Rightarrow> int" where "month_of t \<equiv> fst (snd (DateOf t))"

subsection \<open>The calendar is a monotone bijection\<close>

lemma div_pred_eq:
  fixes y k :: int
  assumes "k > 0"
  shows "(y - 1) div k = y div k - (if y mod k = 0 then 1 else 0)"
proof (cases "y mod k = 0")
  case True
  then have "y - 1 = k * (y div k - 1) + (k - 1)"
    using mult_div_mod_eq [of k y] by (simp add: algebra_simps)
  then have "(y - 1) div k = y div k - 1"
    by (rule int_div_pos_eq) (use assms in simp_all)
  with True show ?thesis by simp
next
  case False
  have "y - 1 = k * (y div k) + (y mod k - 1)" by simp
  moreover have "0 \<le> y mod k - 1"
    using False assms pos_mod_sign [of k y] by linarith
  moreover have "y mod k - 1 < k"
    using pos_mod_bound [OF assms, of y] by linarith
  ultimately have "(y - 1) div k = y div k" by (rule int_div_pos_eq)
  with False show ?thesis by simp
qed

lemma days_before_year_Suc: "days_before_year (y + 1) = days_before_year y + year_len y"
proof -
  have "y mod 400 = 0 \<Longrightarrow> y mod 100 = 0" and "y mod 100 = 0 \<Longrightarrow> y mod 4 = 0"
    by (simp_all add: mod_eq_0_iff_dvd) (auto elim: dvd_trans [rotated])
  then show ?thesis
    by (auto simp: days_before_year_def year_len_def is_leap_def div_pred_eq)
qed

lemma year_len_pos [simp]: "0 < year_len y"
  by (simp add: year_len_def)

lemma days_before_year_mono: "x < y \<Longrightarrow> days_before_year x + year_len x \<le> days_before_year y"
proof (induction y rule: int_gr_induct)
  case base
  show ?case by (simp add: days_before_year_Suc)
next
  case (step i)
  then show ?case using days_before_year_Suc [of i] year_len_pos [of i] by linarith
qed

text \<open>Splitting four cycles of length \<open>k\<close>, the last one a day longer.\<close>

lemma quad_split:
  fixes d k q :: int
  assumes "k > 0" and "0 \<le> d" and "d \<le> 4 * k" and "q = d div k - d div k div 4"
  shows "0 \<le> q" and "q \<le> 3" and "0 \<le> d - k * q" and "d - k * q \<le> k"
    and "q < 3 \<Longrightarrow> d - k * q < k"
proof -
  have d: "d = k * (d div k) + d mod k" "0 \<le> d mod k" "d mod k < k" using assms(1) by simp_all
  have "0 \<le> d div k" using assms(1,2) by (simp add: pos_imp_zdiv_nonneg_iff)
  moreover have "d div k \<le> 4" using assms(1,3) by (metis mult.commute nonzero_mult_div_cancel_left
        order_less_imp_not_eq2 zdiv_mono1)
  ultimately consider "d div k = 4" | "d div k \<in> {0, 1, 2, 3}" by fastforce
  then have *: "(d div k = 4 \<and> q = 3) \<or> (d div k = q \<and> 0 \<le> q \<and> q \<le> 3)"
    by cases (auto simp: assms(4))
  moreover have "d mod k = 0" if "d div k = 4"
    using d(1,2) assms(3) unfolding that by linarith
  ultimately have "(d = 4 * k \<and> q = 3) \<or> (0 \<le> q \<and> q \<le> 3 \<and> 0 \<le> d - k * q \<and> d - k * q < k)"
    using d by (metis add_0_right add_diff_cancel_left' mult.commute)
  then show "0 \<le> q" "q \<le> 3" "0 \<le> d - k * q" "d - k * q \<le> k" "q < 3 \<Longrightarrow> d - k * q < k"
    using assms(1) by auto
qed

lemma cycle_divs:
  fixes a b c e y :: int
  assumes y: "y - 1 = 400 * a + 100 * b + 4 * c + e"
    and b: "0 \<le> b" "b \<le> 3" and c: "0 \<le> c" "c \<le> 24" and e: "0 \<le> e" "e \<le> 3"
  shows "(y - 1) div 4 = 100 * a + 25 * b + c" and "(y - 1) div 100 = 4 * a + b"
    and "(y - 1) div 400 = a"
proof -
  show "(y - 1) div 4 = 100 * a + 25 * b + c"
    by (rule int_div_pos_eq [where r = e]) (use assms in \<open>simp_all add: algebra_simps\<close>)
  show "(y - 1) div 100 = 4 * a + b"
    by (rule int_div_pos_eq [where r = "4 * c + e"]) (use assms in \<open>simp_all add: algebra_simps\<close>)
  show "(y - 1) div 400 = a"
    by (rule int_div_pos_eq [where r = "100 * b + 4 * c + e"]) (use assms in \<open>simp_all add: algebra_simps\<close>)
qed

lemma cycle_leap:
  fixes a b c y :: int
  assumes y: "y = 400 * a + 100 * b + 4 * c + 4" and "0 \<le> c" "c \<le> 24" and "c = 24 \<Longrightarrow> b = 3"
  shows "is_leap y"
proof (cases "c = 24")
  case True
  then have "y = 400 * (a + 1)" using assms by simp
  then have "y mod 400 = 0" and "y = 4 * (100 * (a + 1))" by simp_all
  then have "y mod 400 = 0" and "y mod 4 = 0" by (simp_all only: mod_mult_self1_is_0)
  then show ?thesis by (simp add: is_leap_def)
next
  case False
  have "y mod 100 = 4 * c + 4"
    by (rule int_mod_pos_eq [where q = "4 * a + b"]) (use assms False in \<open>simp_all add: algebra_simps\<close>)
  moreover have "y mod 4 = 0"
    by (rule int_mod_pos_eq [where q = "100 * a + 25 * b + c + 1"]) (use assms in \<open>simp_all add: algebra_simps\<close>)
  ultimately show ?thesis using assms(2) by (simp add: is_leap_def)
qed

lemma year_yday_bounds:
  assumes "year_yday n = (y, yd)"
  shows "n = days_before_year y + yd" and "0 \<le> yd" and "yd < year_len y"
proof -
  define a where "a = n div 146097"
  define d1 where "d1 = n mod 146097"
  define b where "b = d1 div 36524 - d1 div 36524 div 4"
  define d2 where "d2 = d1 - 36524 * b"
  define c where "c = d2 div 1461"
  define d3 where "d3 = d2 mod 1461"
  define e where "e = d3 div 365 - d3 div 365 div 4"
  have y: "y = 400 * a + 100 * b + 4 * c + e + 1" and yd: "yd = d3 - 365 * e"
    using assms unfolding year_yday_def Let_def a_def d1_def b_def d2_def c_def d3_def e_def
    by (simp_all only: prod.inject)
  have d1: "0 \<le> d1" "d1 \<le> 4 * 36524" unfolding d1_def by (simp_all add: zle_diff1_eq [symmetric])
  note b = quad_split [OF _ d1 b_def, folded d2_def]
  have c: "0 \<le> c" "c \<le> 24"
    using b zdiv_mono1 [of d2 36524 1461] by (simp_all add: c_def pos_imp_zdiv_nonneg_iff)
  have d3: "0 \<le> d3" "d3 \<le> 4 * 365" "d2 = 1461 * c + d3"
    unfolding d3_def c_def by (simp_all add: zle_diff1_eq [symmetric])
  note e = quad_split [OF _ d3(1,2) e_def, folded yd]
  have n: "n = 146097 * a + d1" by (simp add: a_def d1_def)
  have div: "(y - 1) div 4 = 100 * a + 25 * b + c" "(y - 1) div 100 = 4 * a + b" "(y - 1) div 400 = a"
    by (rule cycle_divs [where e = e]; use y b(1,2) c e(1,2) in simp)+
  show "n = days_before_year y + yd"
    unfolding days_before_year_def div using n d2_def d3(3) yd y by simp
  show "0 \<le> yd" using e(3) by simp
  show "yd < year_len y"
  proof (cases "yd = 365")
    case True
    then have e3: "e = 3" using e(1,2,5) by fastforce
    have "c = 24 \<Longrightarrow> b = 3"
      using True e3 b(1,2,5) d3(3) yd by fastforce
    with e3 y c have "is_leap y" by (intro cycle_leap [where a = a and b = b and c = c]) simp_all
    then show ?thesis by (simp add: True year_len_def)
  next
    case False
    then show ?thesis using e(4) by (simp add: year_len_def)
  qed
qed

lemma days_before_year_unique:
  assumes "days_before_year x + p = days_before_year y + q"
    and "0 \<le> p" and "p < year_len x" and "0 \<le> q" and "q < year_len y"
  shows "x = y \<and> p = q"
proof -
  have "\<not> x < y" using days_before_year_mono [of x y] assms by linarith
  moreover have "\<not> y < x" using days_before_year_mono [of y x] assms by linarith
  ultimately show ?thesis using assms(1) by auto
qed

lemma year_yday_inverse:
  assumes "0 \<le> yd" and "yd < year_len y"
  shows "year_yday (days_before_year y + yd) = (y, yd)"
proof -
  obtain y' yd' where *: "year_yday (days_before_year y + yd) = (y', yd')" by fastforce
  from days_before_year_unique [OF year_yday_bounds(1) [OF *] assms year_yday_bounds(2,3) [OF *]] *
  show ?thesis by simp
qed

lemma month_of_yday_range: "1 \<le> month_of_yday leap yd \<and> month_of_yday leap yd \<le> 12"
  by (simp add: month_of_yday_def Let_def)

lemma month_of_yday_bounds:
  assumes "0 \<le> yd" and "yd < (if leap then 366 else 365)"
  shows "days_before_month leap (month_of_yday leap yd) \<le> yd"
    and "yd < days_before_month leap (month_of_yday leap yd + 1)"
  using assms by (cases leap; simp add: month_of_yday_def days_before_month_def Let_def)+

lemma month_of_yday_mono: "yd \<le> yd' \<Longrightarrow> month_of_yday leap yd \<le> month_of_yday leap yd'"
  by (simp add: month_of_yday_def Let_def)

lemma month_cases:
  fixes m :: int
  assumes "1 \<le> m" and "m \<le> 12"
  shows "m \<in> {1, 2, 3, 4, 5, 6, 7, 8, 9, 10, 11, 12}"
  using assms by simp presburger

lemma month_of_yday_inverse:
  assumes "1 \<le> m" and "m \<le> 12"
    and "days_before_month leap m \<le> yd" and "yd < days_before_month leap (m + 1)"
  shows "month_of_yday leap yd = m"
  using month_cases [OF assms(1,2)] assms(3,4)
  by (elim insertE emptyE)
    (auto simp: month_of_yday_def days_before_month_def Let_def split: if_splits)

lemma days_before_month_bounds:
  assumes "1 \<le> m" and "m \<le> 12"
  shows "0 \<le> days_before_month (is_leap y) m"
    and "days_before_month (is_leap y) (m + 1) \<le> year_len y"
  using month_cases [OF assms] by (auto simp: days_before_month_def year_len_def)

lemma civil_of_days_bounds:
  assumes "civil_of_days n = (y, m, d)"
  shows "1 \<le> m" and "m \<le> 12" and "1 \<le> d" and "d \<le> days_in m y" and "n = days_of_civil y m d"
proof -
  obtain yd where yd: "year_yday n = (y, yd)" and m: "m = month_of_yday (is_leap y) yd"
    and d: "d = yd - days_before_month (is_leap y) m + 1"
    using assms by (auto simp: civil_of_days_def Let_def split: prod.splits)
  have "yd < (if is_leap y then 366 else 365)"
    using year_yday_bounds(3) [OF yd] by (simp add: year_len_def)
  note mb = month_of_yday_bounds [OF year_yday_bounds(2) [OF yd] this, folded m]
  show "1 \<le> m" "m \<le> 12" using month_of_yday_range m by auto
  show "1 \<le> d" "d \<le> days_in m y" using mb by (simp_all add: d days_in_def)
  show "n = days_of_civil y m d"
    using year_yday_bounds(1) [OF yd] by (simp add: d days_of_civil_def)
qed

lemma civil_of_days_inverse:
  assumes "1 \<le> m" and "m \<le> 12" and "1 \<le> d" and "d \<le> days_in m y"
  shows "civil_of_days (days_of_civil y m d) = (y, m, d)"
proof -
  let ?yd = "days_before_month (is_leap y) m + (d - 1)"
  have "0 \<le> ?yd" "?yd < year_len y"
    using days_before_month_bounds [OF assms(1,2), of y] assms(3,4) by (auto simp: days_in_def)
  then have "year_yday (days_of_civil y m d) = (y, ?yd)"
    unfolding days_of_civil_def add.assoc by (rule year_yday_inverse)
  moreover have "month_of_yday (is_leap y) ?yd = m"
    by (rule month_of_yday_inverse) (use assms in \<open>simp_all add: days_in_def\<close>)
  ultimately show ?thesis by (simp add: civil_of_days_def)
qed

text \<open>Later days never have an earlier (year, month).\<close>

lemma civil_of_days_mono:
  assumes "n \<le> n'" and "civil_of_days n = (y, m, d)" and "civil_of_days n' = (y', m', d')"
  shows "(y, m) \<le> (y', m')"
proof -
  obtain yd yd' where *: "year_yday n = (y, yd)" "m = month_of_yday (is_leap y) yd"
      "year_yday n' = (y', yd')" "m' = month_of_yday (is_leap y') yd'"
    using assms by (auto simp: civil_of_days_def Let_def split: prod.splits)
  have le: "days_before_year y + yd \<le> days_before_year y' + yd'"
    using assms(1) year_yday_bounds(1) [OF *(1)] year_yday_bounds(1) [OF *(3)] by simp
  then have "\<not> y' < y"
    using days_before_year_mono [of y' y] year_yday_bounds(2,3) [OF *(1)]
      year_yday_bounds(2,3) [OF *(3)] by linarith
  moreover have "m \<le> m'" if "y = y'"
    using le that by (simp add: *(2,4) month_of_yday_mono)
  ultimately have "y < y' \<or> y \<le> y' \<and> m \<le> m'" by linarith
  then show ?thesis by (simp add: less_eq_prod_def)
qed

lemma DateOf_mono: "t \<le> t' \<Longrightarrow> (year_of t, month_of t) \<le> (year_of t', month_of t')"
  unfolding DateOf_def
  by (rule civil_of_days_mono [of "t div day_ns" "t' div day_ns"])
    (auto simp: day_ns_def second_def zdiv_mono1 prod_eq_iff)

lemma DateOf_Date:
  assumes "1 \<le> m" and "m \<le> 12" and "1 \<le> d" and "d \<le> days_in m y"
  shows "DateOf (Date y m d) = (y, m, d)"
  by (simp add: DateOf_def Date_def day_ns_def second_def civil_of_days_inverse [OF assms])

lemma month_of_range: "1 \<le> month_of t" "month_of t \<le> 12"
  using civil_of_days_bounds [of "t div day_ns"] unfolding DateOf_def by (metis prod.collapse)+

lemma days_in_pos: "1 \<le> m \<Longrightarrow> m \<le> 12 \<Longrightarrow> 28 \<le> days_in m y \<and> days_in m y \<le> 31"
  using month_cases [of m] by (auto simp: days_in_def days_before_month_def)

section \<open>Formatting\<close>

text \<open>\<^verbatim>\<open>appendInt(b, x, width)\<close>: a sign and at least \<open>w\<close> digits.\<close>

definition pad :: "nat \<Rightarrow> nat \<Rightarrow> string" where
  "pad w n = replicate (w - length (decimal n)) (digit 0) @ decimal n"

definition appendInt :: "int \<Rightarrow> nat \<Rightarrow> string" where
  "appendInt x w = (if x < 0 then ''-'' @ pad w (nat (- x)) else pad w (nat x))"

text \<open>The layout \<^verbatim>\<open>2006-01-02\<close>.\<close>

definition format_date :: "int \<times> int \<times> int \<Rightarrow> string" where
  "format_date ymd =
     (case ymd of (y, m, d) \<Rightarrow> appendInt y 4 @ ''-'' @ appendInt m 2 @ ''-'' @ appendInt d 2)"

lemma decimal_1: "n < 10 \<Longrightarrow> decimal n = [digit n]"
  by (simp add: decimal.simps)

lemma decimal_2: "10 \<le> n \<Longrightarrow> n < 100 \<Longrightarrow> decimal n = [digit (n div 10), digit (n mod 10)]"
  by (subst decimal.simps) (simp add: decimal_1)

lemma decimal_3: "100 \<le> n \<Longrightarrow> n < 1000 \<Longrightarrow>
    decimal n = [digit (n div 100), digit (n div 10 mod 10), digit (n mod 10)]"
  by (subst decimal.simps) (simp add: decimal_2 flip: div_mult2_eq)

lemma decimal_4: "1000 \<le> n \<Longrightarrow> n < 10000 \<Longrightarrow>
    decimal n = [digit (n div 1000), digit (n div 100 mod 10), digit (n div 10 mod 10), digit (n mod 10)]"
  by (subst decimal.simps) (simp add: decimal_3 flip: div_mult2_eq)

lemma pad_2: "n < 100 \<Longrightarrow> pad 2 n = [digit (n div 10), digit (n mod 10)]"
  by (cases "n < 10") (simp_all add: pad_def decimal_1 decimal_2)

lemma replicate_2: "replicate 2 x = [x, x]"
  by (simp add: numeral_2_eq_2)

lemma replicate_3: "replicate 3 x = [x, x, x]"
  by (simp add: numeral_3_eq_3)

lemma pad_4:
  assumes "n < 10000"
  shows "pad 4 n = [digit (n div 1000), digit (n div 100 mod 10), digit (n div 10 mod 10), digit (n mod 10)]"
proof -
  from assms consider "n < 10" | "10 \<le> n" "n < 100" | "100 \<le> n" "n < 1000" | "1000 \<le> n"
    by linarith
  then show ?thesis
  proof cases
    case 1
    then show ?thesis by (simp add: pad_def decimal_1 replicate_3)
  next
    case 2
    then have "n div 10 < 10" by (simp add: div_less_iff_less_mult)
    with 2 show ?thesis by (simp add: pad_def decimal_2 replicate_2)
  next
    case 3
    then have "n div 100 < 10" by (simp add: div_less_iff_less_mult)
    with 3 show ?thesis by (simp add: pad_def decimal_3)
  next
    case 4
    with assms show ?thesis by (simp add: pad_def decimal_4)
  qed
qed

lemma two_digits_cases:
  fixes n :: nat
  assumes "n < 100"
  obtains a b where "n = 10 * a + b" "a < 10" "b < 10" "pad 2 n = [digit a, digit b]"
proof
  show "n = 10 * (n div 10) + n mod 10" by simp
  show "n div 10 < 10" using assms by (simp add: div_less_iff_less_mult)
  show "n mod 10 < 10" by simp
  show "pad 2 n = [digit (n div 10), digit (n mod 10)]" by (rule pad_2 [OF assms])
qed

lemma four_digits_cases:
  fixes n :: nat
  assumes "n < 10000"
  obtains a b c d where "n = 1000 * a + 100 * b + 10 * c + d" "a < 10" "b < 10" "c < 10" "d < 10"
    "pad 4 n = [digit a, digit b, digit c, digit d]"
proof
  have "n div 10 = 10 * (n div 100) + n div 10 mod 10" "n div 100 = 10 * (n div 1000) + n div 100 mod 10"
    using mult_div_mod_eq [of 10 "n div 10"] mult_div_mod_eq [of 10 "n div 100"]
    by (simp_all flip: div_mult2_eq)
  moreover have "n = 10 * (n div 10) + n mod 10" by simp
  ultimately show "n = 1000 * (n div 1000) + 100 * (n div 100 mod 10) + 10 * (n div 10 mod 10) + n mod 10"
    by linarith
  show "n div 1000 < 10" using assms by (simp add: div_less_iff_less_mult)
  show "n div 100 mod 10 < 10" "n div 10 mod 10 < 10" "n mod 10 < 10" by simp_all
  show "pad 4 n = [digit (n div 1000), digit (n div 100 mod 10), digit (n div 10 mod 10), digit (n mod 10)]"
    by (rule pad_4 [OF assms])
qed

lemma lex_digit:
  fixes p q a b :: nat
  assumes "a < 10" and "b < 10"
  shows "10 * p + a < 10 * q + b \<longleftrightarrow> p < q \<or> p = q \<and> a < b"
    and "10 * p + a = 10 * q + b \<longleftrightarrow> p = q \<and> a = b"
  using assms by (cases p q rule: linorder_cases; simp)+

lemma two_digits_less:
  fixes m n :: nat
  assumes "m < 100" and "n < 100"
  shows "pad 2 m @ xs < pad 2 n @ ys \<longleftrightarrow> m < n \<or> m = n \<and> xs < ys"
proof -
  from assms(1) obtain a b where m: "m = 10 * a + b" "a < 10" "b < 10" "pad 2 m = [digit a, digit b]"
    by (rule two_digits_cases)
  from assms(2) obtain p q where n: "n = 10 * p + q" "p < 10" "q < 10" "pad 2 n = [digit p, digit q]"
    by (rule two_digits_cases)
  show ?thesis unfolding m(4) n(4) using m(2,3) n(2,3) by (auto simp: m(1) n(1) lex_digit)
qed

lemma four_digits_less:
  fixes m n :: nat
  assumes "m < 10000" and "n < 10000"
  shows "pad 4 m @ xs < pad 4 n @ ys \<longleftrightarrow> m < n \<or> m = n \<and> xs < ys"
proof -
  from assms(1) obtain a b c d where m: "m = 1000 * a + 100 * b + 10 * c + d"
      "a < 10" "b < 10" "c < 10" "d < 10" "pad 4 m = [digit a, digit b, digit c, digit d]"
    by (rule four_digits_cases)
  from assms(2) obtain p q r s where n: "n = 1000 * p + 100 * q + 10 * r + s"
      "p < 10" "q < 10" "r < 10" "s < 10" "pad 4 n = [digit p, digit q, digit r, digit s]"
    by (rule four_digits_cases)
  have m': "m = 10 * (10 * (10 * a + b) + c) + d" and n': "n = 10 * (10 * (10 * p + q) + r) + s"
    using m(1) n(1) by simp_all
  have "m < n \<longleftrightarrow> a < p \<or> a = p \<and> (b < q \<or> b = q \<and> (c < r \<or> c = r \<and> d < s))"
    and "m = n \<longleftrightarrow> a = p \<and> b = q \<and> c = r \<and> d = s"
    unfolding m' n' by (simp_all only: lex_digit m(2-5) n(2-5)) blast+
  then show ?thesis unfolding m(6) n(6) using m(2-5) n(2-5) by auto
qed

lemma format_date_less:
  assumes "0 \<le> y" "y \<le> 9999" "0 \<le> y'" "y' \<le> 9999" "1 \<le> m" "m \<le> 12" "1 \<le> m'" "m' \<le> 12"
    and "1 \<le> d" "d \<le> 31" "1 \<le> d'" "d' \<le> 31"
  shows "format_date (y, m, d) < format_date (y', m', d') \<longleftrightarrow> (y, m, d) < (y', m', d')"
  using assms
  by (simp add: format_date_def appendInt_def four_digits_less two_digits_less
      two_digits_less [where xs = "[]" and ys = "[]", simplified] nat_less_iff less_prod_def eq_nat_nat_iff)
    auto

lemma format_date_inject:
  assumes "0 \<le> y" "y \<le> 9999" "0 \<le> y'" "y' \<le> 9999" "1 \<le> m" "m \<le> 12" "1 \<le> m'" "m' \<le> 12"
    and "1 \<le> d" "d \<le> 31" "1 \<le> d'" "d' \<le> 31"
  shows "format_date (y, m, d) = format_date (y', m', d') \<longleftrightarrow> (y, m, d) = (y', m', d')"
  using format_date_less [OF assms]
    format_date_less [of y' y m' m d' d] assms by (metis linorder_neq_iff)

text \<open>The clock of an instant, and the layouts \<^verbatim>\<open>RFC3339\<close> and
  \<^verbatim>\<open>RFC3339Nano\<close> in UTC: \<^verbatim>\<open>RFC3339Nano\<close> writes the nanoseconds without
  their trailing zeros, and nothing at all for a whole second.\<close>

definition seconds_of :: "time \<Rightarrow> nat" where
  "seconds_of t = nat (t mod day_ns div second)"

definition nanos_of :: "time \<Rightarrow> nat" where
  "nanos_of t = nat (t mod second)"

definition format_clock :: "time \<Rightarrow> string" where
  "format_clock t = (let s = seconds_of t in
     pad 2 (s div 3600) @ '':'' @ pad 2 (s div 60 mod 60) @ '':'' @ pad 2 (s mod 60))"

definition strip_zeros :: "string \<Rightarrow> string" where
  "strip_zeros ds = rev (dropWhile (\<lambda>c. c = digit 0) (rev ds))"

definition format_frac :: "nat \<Rightarrow> string" where
  "format_frac n = (if n = 0 then [] else CHR ''.'' # strip_zeros (pad 9 n))"

definition format_rfc3339 :: "time \<Rightarrow> string" where
  "format_rfc3339 t = format_date (DateOf t) @ ''T'' @ format_clock t @ ''Z''"

definition format_rfc3339nano :: "time \<Rightarrow> string" where
  "format_rfc3339nano t =
     format_date (DateOf t) @ ''T'' @ format_clock t @ format_frac (nanos_of t) @ ''Z''"

section \<open>Parsing\<close>

text \<open>Numbers of a fixed width, and \<^verbatim>\<open>getnum\<close> for one or two digits.\<close>

definition take_num :: "nat \<Rightarrow> string \<Rightarrow> (nat \<times> string) option" where
  "take_num w s =
     (if w \<le> length s \<and> list_all is_digit (take w s) then Some (number (take w s), drop w s) else None)"

definition getnum :: "string \<Rightarrow> (nat \<times> string) option" where
  "getnum s = (case take_num 2 s of Some r \<Rightarrow> Some r | None \<Rightarrow> take_num 1 s)"

fun expect :: "char \<Rightarrow> string \<Rightarrow> string option" where
  "expect c [] = None"
| "expect c (x # s) = (if x = c then Some s else None)"

text \<open>Year, month and day of the layout \<^verbatim>\<open>2006-01-02\<close>; the rest of the text is returned.\<close>

definition parse_ymd :: "string \<Rightarrow> ((int \<times> int \<times> int) \<times> string) option" where
  "parse_ymd s =
     do { (y, s) \<leftarrow> take_num 4 s; s \<leftarrow> expect (CHR ''-'') s;
          (m, s) \<leftarrow> take_num 2 s; s \<leftarrow> expect (CHR ''-'') s;
          (d, s) \<leftarrow> take_num 2 s;
          if 1 \<le> m \<and> m \<le> 12 \<and> 1 \<le> d \<and> int d \<le> days_in (int m) (int y)
          then Some ((int y, int m, int d), s) else None }"

text \<open>\<^verbatim>\<open>time.Parse("2006-01-02", s)\<close>: nothing may follow the day.\<close>

definition parse_date :: "string \<Rightarrow> time option" where
  "parse_date s =
     do { ((y, m, d), s) \<leftarrow> parse_ymd s; if s = [] then Some (Date y m d) else None }"

text \<open>An optional fraction after the seconds (a full stop or a comma and at least one digit);
  digits after the ninth are dropped.\<close>

definition parse_frac :: "string \<Rightarrow> nat \<times> string" where
  "parse_frac s =
     (case s of c # d # _ \<Rightarrow>
        if (c = CHR ''.'' \<or> c = CHR '','') \<and> is_digit d
        then let ds = take 9 (takeWhile is_digit (tl s))
             in (number ds * 10 ^ (9 - length ds), dropWhile is_digit (tl s))
        else (0, s)
      | _ \<Rightarrow> (0, s))"

text \<open>\<^verbatim>\<open>Z07:00\<close>: \<^verbatim>\<open>Z\<close> or a signed offset of hours and minutes, in seconds.\<close>

definition parse_zone :: "string \<Rightarrow> (int \<times> string) option" where
  "parse_zone s =
     (case s of [] \<Rightarrow> None
      | c # r \<Rightarrow>
        if c = CHR ''Z'' then Some (0, r)
        else do { (h, r) \<leftarrow> take_num 2 r; r \<leftarrow> expect (CHR '':'') r; (m, r) \<leftarrow> take_num 2 r;
                  if h \<le> 24 \<and> m \<le> 60
                  then let off = int (h * 60 + m) * 60
                       in if c = CHR ''+'' then Some (off, r)
                          else if c = CHR ''-'' then Some (- off, r) else None
                  else None })"

text \<open>\<^verbatim>\<open>time.Parse(time.RFC3339, s)\<close>.\<close>

definition parse_rfc3339 :: "string \<Rightarrow> time option" where
  "parse_rfc3339 s =
     do { ((y, m, d), s) \<leftarrow> parse_ymd s; s \<leftarrow> expect (CHR ''T'') s;
          (hh, s) \<leftarrow> getnum s; s \<leftarrow> expect (CHR '':'') s;
          (mm, s) \<leftarrow> take_num 2 s; s \<leftarrow> expect (CHR '':'') s;
          (ss, s) \<leftarrow> take_num 2 s;
          if hh < 24 \<and> mm < 60 \<and> ss < 60
          then case parse_frac s of (ns, s) \<Rightarrow>
            do { (off, s) \<leftarrow> parse_zone s;
                 if s = []
                 then Some (Date y m d + (int (3600 * hh + 60 * mm + ss) - off) * second + int ns)
                 else None }
          else None }"

subsection \<open>Parsing inverts formatting\<close>

lemma number_Nil [simp]: "number [] = 0"
  by (simp add: number_def)

lemma number_append: "number (xs @ ys) = number xs * 10 ^ length ys + number ys"
proof (induction ys rule: rev_induct)
  case (snoc y ys)
  then show ?case by (simp flip: append_assoc add: algebra_simps)
qed simp

lemma number_zeros [simp]: "number (replicate k (digit 0)) = 0"
  by (induction k) (simp_all add: replicate_app_Cons_same [symmetric] replicate_append_same [symmetric])

lemma length_decimal: "n < 10 ^ Suc w \<Longrightarrow> length (decimal n) \<le> Suc w"
proof (induction w arbitrary: n)
  case 0
  then show ?case by (simp add: decimal_1)
next
  case (Suc w)
  show ?case
  proof (cases "n < 10")
    case False
    have "n div 10 < 10 ^ Suc w" using Suc.prems by (simp add: div_less_iff_less_mult mult.commute)
    with Suc.IH False show ?thesis by (subst decimal.simps) auto
  qed (simp add: decimal_1)
qed

lemma pad_props:
  assumes "n < 10 ^ w" and "0 < w"
  shows "length (pad w n) = w" and "number (pad w n) = n" and "list_all is_digit (pad w n)"
proof -
  from assms obtain v where "w = Suc v" by (cases w) auto
  with assms show "length (pad w n) = w" using length_decimal [of n v] by (simp add: pad_def)
  show "number (pad w n) = n" by (simp add: pad_def number_append)
  show "list_all is_digit (pad w n)"
    using decimal_digits [of n] by (auto simp: pad_def list_all_iff)
qed

lemma take_num_pad: "n < 10 ^ w \<Longrightarrow> 0 < w \<Longrightarrow> take_num w (pad w n @ r) = Some (n, r)"
  by (simp add: take_num_def pad_props)

lemmas take_num_simps = take_num_pad [of _ 2, simplified] take_num_pad [of _ 4, simplified]

lemma getnum_pad: "n < 100 \<Longrightarrow> getnum (pad 2 n @ r) = Some (n, r)"
  by (simp add: getnum_def take_num_simps)

lemma parse_ymd_format:
  assumes "0 \<le> y" "y \<le> 9999" "1 \<le> m" "m \<le> 12" "1 \<le> d" "d \<le> days_in m y"
  shows "parse_ymd (format_date (y, m, d) @ r) = Some ((y, m, d), r)"
proof -
  have "nat m < 100" "nat d < 100" "nat y < 10000"
    using assms days_in_pos [of m y] by linarith+
  with assms show ?thesis
    by (simp add: parse_ymd_def format_date_def appendInt_def take_num_simps nat_le_iff le_nat_iff)
qed

lemma parse_ymd_DateOf:
  assumes "0 \<le> year_of t" and "year_of t \<le> 9999"
  shows "parse_ymd (format_date (DateOf t) @ r) = Some (DateOf t, r)"
proof -
  obtain y m d where t: "DateOf t = (y, m, d)" by (metis prod_cases3)
  then have "civil_of_days (t div day_ns) = (y, m, d)" by (simp add: DateOf_def)
  from civil_of_days_bounds [OF this] assms show ?thesis
    by (simp add: t parse_ymd_format)
qed

lemma parse_date_format:
  assumes "0 \<le> y" "y \<le> 9999" "1 \<le> m" "m \<le> 12" "1 \<le> d" "d \<le> days_in m y"
  shows "parse_date (format_date (y, m, d)) = Some (Date y m d)"
  using parse_ymd_format [OF assms, of "[]"] by (simp add: parse_date_def)

lemma strip_zeros_split:
  obtains k where "ds = strip_zeros ds @ replicate k (digit 0)"
proof
  have "rev ds = takeWhile (\<lambda>c. c = digit 0) (rev ds) @ dropWhile (\<lambda>c. c = digit 0) (rev ds)"
    by simp
  then have "ds = rev (dropWhile (\<lambda>c. c = digit 0) (rev ds)) @ rev (takeWhile (\<lambda>c. c = digit 0) (rev ds))"
    by (metis rev_append rev_rev_ident)
  moreover have "rev (takeWhile (\<lambda>c. c = digit 0) (rev ds)) =
      replicate (length (takeWhile (\<lambda>c. c = digit 0) (rev ds))) (digit 0)"
    by (metis (mono_tags, lifting) rev_replicate replicate_length_same set_takeWhileD)
  ultimately show "ds = strip_zeros ds @
      replicate (length (takeWhile (\<lambda>c. c = digit 0) (rev ds))) (digit 0)"
    by (simp add: strip_zeros_def)
qed

lemma parse_frac_format:
  assumes "n < 1000000000"
  shows "parse_frac (format_frac n @ ''Z'') = (n, ''Z'')"
proof (cases "n = 0")
  case True
  then show ?thesis by (simp add: format_frac_def parse_frac_def)
next
  case False
  let ?ds = "strip_zeros (pad 9 n)"
  have p: "length (pad 9 n) = 9" "number (pad 9 n) = n" "list_all is_digit (pad 9 n)"
    using pad_props [of n 9] assms by simp_all
  obtain k where k: "pad 9 n = ?ds @ replicate k (digit 0)" by (rule strip_zeros_split)
  then have len: "length ?ds + k = 9" by (metis p(1) length_append length_replicate)
  have num: "number ?ds * 10 ^ k = n" using p(2) k by (metis number_append number_zeros add_0_right length_replicate)
  with False have "?ds \<noteq> []" by auto
  then obtain c cs where c: "?ds = c # cs" by (cases ?ds) auto
  have k8: "8 - length cs = k" using len c by simp
  have dig: "list_all is_digit ?ds" using p(3) k by (metis list_all_append)
  have "takeWhile is_digit (?ds @ ''Z'') = ?ds" "dropWhile is_digit (?ds @ ''Z'') = ''Z''"
    using dig by (simp_all add: list_all_iff takeWhile_append2 dropWhile_append2 is_digit_def)
  with dig len num False show ?thesis
    by (simp add: format_frac_def parse_frac_def c Let_def k8)
qed

lemma Date_DateOf: "DateOf t = (y, m, d) \<Longrightarrow> Date y m d = t div day_ns * day_ns"
  using civil_of_days_bounds(5) [of "t div day_ns" y m d] by (simp add: DateOf_def Date_def)

text \<open>The instant is its day, its second of the day and its nanoseconds.\<close>

lemma clock_split:
  "t = t div day_ns * day_ns + int (seconds_of t) * second + int (nanos_of t)"
  "seconds_of t < 86400" "nanos_of t < 1000000000"
proof -
  have r: "0 \<le> t mod day_ns" "t mod day_ns < 86400 * 1000000000"
    by (simp_all add: day_ns_def second_def)
  have "t mod day_ns mod second = t mod second"
    by (simp add: day_ns_def mod_mult2_eq' mod_mod_cancel)
  then have "t mod day_ns = int (seconds_of t) * second + int (nanos_of t)"
    using r div_mult_mod_eq [of "t mod day_ns" second]
    by (simp add: seconds_of_def nanos_of_def second_def pos_imp_zdiv_nonneg_iff)
  then show "t = t div day_ns * day_ns + int (seconds_of t) * second + int (nanos_of t)"
    by (metis add.assoc div_mult_mod_eq)
  show "seconds_of t < 86400"
    using r by (simp add: seconds_of_def second_def nat_less_iff pos_imp_zdiv_nonneg_iff div_less_iff_less_mult)
  show "nanos_of t < 1000000000"
    by (simp add: nanos_of_def second_def nat_less_iff)
qed

lemma parse_rfc3339_parts:
  assumes "0 \<le> y" "y \<le> 9999" "1 \<le> m" "m \<le> 12" "1 \<le> d" "d \<le> days_in m y"
    and "hh < 24" "mm < 60" "ss < 60" "ns < 1000000000"
  shows "parse_rfc3339 (format_date (y, m, d) @ CHR ''T'' # pad 2 hh @ CHR '':'' # pad 2 mm @ CHR '':'' #
           pad 2 ss @ format_frac ns @ ''Z'') =
         Some (Date y m d + int (3600 * hh + 60 * mm + ss) * second + int ns)"
  using assms(7-10)
  by (simp add: parse_rfc3339_def parse_ymd_format [OF assms(1-6)] getnum_pad take_num_simps
      parse_frac_format parse_zone_def)

lemma parse_rfc3339_format:
  assumes "0 \<le> year_of t" and "year_of t \<le> 9999"
  shows "parse_rfc3339 (format_rfc3339nano t) = Some t"
proof -
  obtain y m d where ymd: "DateOf t = (y, m, d)" by (metis prod_cases3)
  define s where "s = seconds_of t"
  have "s div 60 = 60 * (s div 3600) + s div 60 mod 60"
    using mult_div_mod_eq [of 60 "s div 60"] by (simp flip: div_mult2_eq)
  then have sum: "3600 * (s div 3600) + 60 * (s div 60 mod 60) + s mod 60 = s"
    using mult_div_mod_eq [of 60 s] by linarith
  have "s div 3600 < 24"
    using clock_split(2) [of t] by (simp add: s_def div_less_iff_less_mult)
  then have "parse_rfc3339 (format_rfc3339nano t) =
      Some (Date y m d + int (3600 * (s div 3600) + 60 * (s div 60 mod 60) + s mod 60) * second
        + int (nanos_of t))"
    using parse_rfc3339_parts [of y m d "s div 3600" "s div 60 mod 60" "s mod 60" "nanos_of t"]
      civil_of_days_bounds [of "t div day_ns" y m d] assms ymd clock_split(3) [of t]
    by (simp only: format_rfc3339nano_def format_clock_def Let_def ymd s_def DateOf_def
        append.simps append_assoc fst_conv)
  also have "\<dots> = Some t"
    unfolding sum Date_DateOf [OF ymd] using clock_split(1) [of t] by (simp add: s_def)
  finally show ?thesis .
qed

lemma format_rfc3339nano_inject:
  assumes "0 \<le> year_of t" "year_of t \<le> 9999" "0 \<le> year_of t'" "year_of t' \<le> 9999"
  shows "format_rfc3339nano t = format_rfc3339nano t' \<longleftrightarrow> t = t'"
  using parse_rfc3339_format [OF assms(1,2)] parse_rfc3339_format [OF assms(3,4)]
  by (metis option.inject)

section \<open>Adding days\<close>

text \<open>\<^verbatim>\<open>t.AddDate(0, 0, n)\<close> in UTC: the date with \<open>n\<close> added to its day, normalised,
  and the same clock.\<close>

definition AddDate :: "time \<Rightarrow> int \<Rightarrow> time" where
  "AddDate t n = (case DateOf t of (y, m, d) \<Rightarrow> Date y m (d + n) + t mod day_ns)"

lemma AddDate_eq: "AddDate t n = t + n * day_ns"
proof -
  obtain y m d where t: "DateOf t = (y, m, d)" by (metis prod_cases3)
  have "Date y m (d + n) = Date y m d + n * day_ns"
    by (simp add: Date_def days_of_civil_def algebra_simps)
  then show ?thesis
    using Date_DateOf [OF t] div_mult_mod_eq [of t day_ns] by (simp add: AddDate_def t)
qed

end
