(* ===== verification/Go_Json.thy ===== *)
theory Go_Json
  imports Go_Strings Go_Crypto
begin

text \<open>
  \<^verbatim>\<open>encoding/json\<close> as the sealer and the store use it: JSON trees (which are also Go's
  decoded \<^verbatim>\<open>any\<close> values), string quoting with Go's HTML-safe escapes, and rendering. A
  \<^verbatim>\<open>float64\<close> is its 64-bit pattern; the shortest decimal text of a finite float is the
  argument \<open>ff\<close>, of which \<open>float_format\<close> states what is documented (distinct floats
  have distinct texts over the characters of a JSON number). The locale \<open>delimited\<close> is the
  contract of an encoding whose texts can be told apart in front of a delimiter; strings and
  trees are shown to satisfy it, so that rendering is injective.
\<close>

section \<open>Quoting\<close>

abbreviation backslash :: char where "backslash \<equiv> CHR 0x5C"
abbreviation dquote :: char where "dquote \<equiv> CHR 0x22"

definition quote_ascii :: "char \<Rightarrow> string" where
  "quote_ascii c =
     (if c = dquote \<or> c = backslash then [backslash, c]
      else if c = CHR 0x08 then [backslash, CHR ''b'']
      else if c = CHR 0x0C then [backslash, CHR ''f'']
      else if c = CHR 0x0A then [backslash, CHR ''n'']
      else if c = CHR 0x0D then [backslash, CHR ''r'']
      else if c = CHR 0x09 then [backslash, CHR ''t'']
      else if (of_char c :: nat) < 32 \<or> c = CHR ''<'' \<or> c = CHR ''>'' \<or> c = CHR ''&''
        then [backslash, CHR ''u'', CHR ''0'', CHR ''0''] @ hex_byte c
      else [c])"

fun quote_token :: "token \<Rightarrow> string" where
  "quote_token (Rune r bs) =
     (if r < 128 then quote_ascii (char_of r)
      else if r = 8232 then backslash # ''u2028''
      else if r = 8233 then backslash # ''u2029''
      else bs)"
| "quote_token (Invalid b) = backslash # ''ufffd''"

definition quote :: "string \<Rightarrow> string" where
  "quote s = dquote # concat (map quote_token (tokens s)) @ [dquote]"

subsection \<open>Reading a quoted string back\<close>

definition hex_nibble :: "char \<Rightarrow> nat option" where
  "hex_nibble c =
     (let n = of_char c :: nat
      in if 48 \<le> n \<and> n \<le> 57 then Some (n - 48) else if 97 \<le> n \<and> n \<le> 102 then Some (n - 87)
         else if 65 \<le> n \<and> n \<le> 70 then Some (n - 55) else None)"

definition hex4 :: "string \<Rightarrow> (nat \<times> string) option" where
  "hex4 s =
     (case s of
        a # b # c # d # r \<Rightarrow>
          (case (hex_nibble a, hex_nibble b, hex_nibble c, hex_nibble d) of
             (Some w, Some x, Some y, Some z) \<Rightarrow> Some (4096 * w + 256 * x + 16 * y + z, r)
           | _ \<Rightarrow> None)
      | _ \<Rightarrow> None)"

definition escape_char :: "char \<Rightarrow> char option" where
  "escape_char c =
     (if c = dquote \<or> c = backslash \<or> c = CHR ''/'' then Some c
      else if c = CHR ''b'' then Some (CHR 0x08) else if c = CHR ''f'' then Some (CHR 0x0C)
      else if c = CHR ''n'' then Some (CHR 0x0A) else if c = CHR ''r'' then Some (CHR 0x0D)
      else if c = CHR ''t'' then Some (CHR 0x09) else None)"

definition high_surrogate :: "nat \<Rightarrow> bool" where
  "high_surrogate n \<longleftrightarrow> 55296 \<le> n \<and> n < 56320"

definition low_surrogate :: "nat \<Rightarrow> bool" where
  "low_surrogate n \<longleftrightarrow> 56320 \<le> n \<and> n < 57344"

text \<open>The low half of a surrogate pair, when the text goes on with one.\<close>

definition low_half :: "string \<Rightarrow> (nat \<times> string) option" where
  "low_half s =
     (case s of
        a # b # r \<Rightarrow>
          if a = backslash \<and> b = CHR ''u''
          then (case hex4 r of Some (n, r') \<Rightarrow> if low_surrogate n then Some (n, r') else None | None \<Rightarrow> None)
          else None
      | _ \<Rightarrow> None)"

lemma hex4_shorter: "hex4 s = Some (n, r) \<Longrightarrow> length r < length s"
  by (auto simp: hex4_def split: list.splits option.splits prod.splits)

lemma low_half_shorter: "low_half s = Some (n, r) \<Longrightarrow> length r < length s"
  by (auto simp: low_half_def split: list.splits option.splits prod.splits if_splits dest!: hex4_shorter)

definition prepend :: "string \<Rightarrow> (string \<times> string) option \<Rightarrow> (string \<times> string) option" where
  "prepend xs x = (case x of None \<Rightarrow> None | Some (ys, r) \<Rightarrow> Some (xs @ ys, r))"

lemma prepend_simps [simp]:
  "prepend [] x = x" "prepend xs (Some (ys, r)) = Some (xs @ ys, r)"
  "prepend xs (prepend ys x) = prepend (xs @ ys) x"
  by (auto simp: prepend_def split: option.splits)

text \<open>The bytes of a string literal after its opening quote, escapes replaced, and the rest.\<close>

function string_bytes :: "string \<Rightarrow> (string \<times> string) option" where
  "string_bytes [] = None"
| "string_bytes (c # r) =
     (if c = dquote then Some ([], r)
      else if (of_char c :: nat) < 32 then None
      else if c \<noteq> backslash then prepend [c] (string_bytes r)
      else
        (case r of
           [] \<Rightarrow> None
         | e # r' \<Rightarrow>
             if e \<noteq> CHR ''u''
             then (case escape_char e of None \<Rightarrow> None | Some d \<Rightarrow> prepend [d] (string_bytes r'))
             else
               (case hex4 r' of
                  None \<Rightarrow> None
                | Some (n, r'') \<Rightarrow>
                    if high_surrogate n
                    then (case low_half r'' of
                            Some (l, r''') \<Rightarrow>
                              prepend (encode_rune (65536 + (n - 55296) * 1024 + (l - 56320))) (string_bytes r''')
                          | None \<Rightarrow> prepend (encode_rune 65533) (string_bytes r''))
                    else if low_surrogate n then prepend (encode_rune 65533) (string_bytes r'')
                    else prepend (encode_rune n) (string_bytes r''))))"
  by pat_completeness auto
termination
  by (relation "measure length") (auto dest!: hex4_shorter low_half_shorter)

declare string_bytes.simps [simp del]

lemma string_bytes_end: "string_bytes (dquote # r) = Some ([], r)"
  by (simp add: string_bytes.simps)

lemma string_bytes_raw:
  "\<forall>c \<in> set bs. c \<noteq> dquote \<and> c \<noteq> backslash \<and> \<not> (of_char c :: nat) < 32 \<Longrightarrow>
    string_bytes (bs @ r) = prepend bs (string_bytes r)"
  by (induction bs) (simp_all add: string_bytes.simps)

lemma string_bytes_escape:
  "escape_char e = Some d \<Longrightarrow> e \<noteq> CHR ''u'' \<Longrightarrow> string_bytes (backslash # e # r) = prepend [d] (string_bytes r)"
  by (simp add: string_bytes.simps)

lemma string_bytes_hex:
  "hex4 s = Some (n, r) \<Longrightarrow> \<not> (55296 \<le> n \<and> n < 57344) \<Longrightarrow>
    string_bytes (backslash # CHR ''u'' # s) = prepend (encode_rune n) (string_bytes r)"
  by (auto simp: string_bytes.simps high_surrogate_def low_surrogate_def)

lemma hex_nibble_hex_digit: "n < 16 \<Longrightarrow> hex_nibble (hex_digit n) = Some n"
  by (simp add: hex_nibble_def of_char_hex_digit)

lemma hex4_byte: "hex4 (CHR ''0'' # CHR ''0'' # hex_byte c @ r) = Some (of_char c, r)"
proof -
  have "hex_nibble (CHR ''0'') = Some 0" by (simp add: hex_nibble_def)
  moreover have "16 * (of_char c div 16) + of_char c mod 16 = (of_char c :: nat)" by simp
  ultimately show ?thesis by (simp add: hex4_def hex_byte_def hex_nibble_hex_digit of_char_nibbles)
qed

lemma hex4_separators: "hex4 (''2028'' @ r) = Some (8232, r)" "hex4 (''2029'' @ r) = Some (8233, r)"
  by (simp_all add: hex4_def hex_nibble_def)

lemma string_bytes_ascii:
  assumes "(of_char c :: nat) < 128"
  shows "string_bytes (quote_ascii c @ r) = prepend [c] (string_bytes r)"
proof -
  have "encode_rune (of_char c) = [c]" using assms by (simp add: encode_rune_def scalar_def)
  then show ?thesis
    using string_bytes_hex [OF hex4_byte, of c r] string_bytes_raw [of "[c]" r] assms
    by (simp add: quote_ascii_def string_bytes_escape escape_char_def)
qed

lemma encode_rune_high:
  assumes "scalar c" and "\<not> c < 128"
  shows "\<forall>b \<in> set (encode_rune c). b \<noteq> dquote \<and> b \<noteq> backslash \<and> \<not> (of_char b :: nat) < 32"
  using encode_rune_high_bytes [OF assms] by fastforce

lemma string_bytes_token:
  assumes "Rune c bs \<in> set (tokens s)"
  shows "string_bytes (quote_token (Rune c bs) @ r) = prepend bs (string_bytes r)"
proof -
  have c: "scalar c" "encode_rune c = bs" using tokens_encode [OF assms] by simp_all
  show ?thesis
  proof (cases "c < 128")
    case True
    then have "bs = [char_of c]" using c by (simp add: encode_rune_def)
    with True show ?thesis by (simp add: string_bytes_ascii)
  next
    case False
    then show ?thesis
      using string_bytes_raw [OF encode_rune_high [OF c(1) False], of r] c(2)
        string_bytes_hex [OF hex4_separators(1), of r] string_bytes_hex [OF hex4_separators(2), of r]
      by (auto simp del: prepend_simps)
  qed
qed

lemma string_bytes_quote:
  assumes "valid_utf8 s"
  shows "string_bytes (tl (quote s) @ r) = Some (s, r)"
proof -
  have "string_bytes (concat (map quote_token ts) @ dquote # r) = Some (concat (map bytes_of ts), r)"
    if "\<forall>t \<in> set ts. is_rune t \<and> t \<in> set (tokens s)" for ts
    using that
  proof (induction ts)
    case Nil
    show ?case by (simp add: string_bytes_end)
  next
    case (Cons t ts)
    then obtain c bs where t: "t = Rune c bs" "Rune c bs \<in> set (tokens s)"
      by (cases t rule: token.exhaust) auto
    with Cons show ?case
      using string_bytes_token [OF t(2)] by (simp del: quote_token.simps)
  qed
  from this [of "tokens s"] assms show ?thesis
    by (simp add: quote_def concat_tokens valid_utf8_def list_all_iff)
qed

section \<open>Encodings that end at a delimiter\<close>

definition stop :: "string \<Rightarrow> bool" where
  "stop r \<longleftrightarrow> r = [] \<or> hd r = CHR '','' \<or> hd r = CHR '']'' \<or> hd r = CHR ''}''"

lemma stop_simps [simp]:
  "stop []" "stop (CHR '','' # r)" "stop (CHR '']'' # r)" "stop (CHR ''}'' # r)"
  by (simp_all add: stop_def)

text \<open>Elements separated by commas, and a text that starts no element and ends the list.\<close>

fun join :: "string list \<Rightarrow> string" where
  "join [] = []"
| "join [x] = x"
| "join (x # y # xs) = x @ CHR '','' # join (y # xs)"

lemma join_Cons: "join (x # xs) = x @ (if xs = [] then [] else CHR '','' # join xs)"
  by (cases xs) simp_all

definition unique_enc :: "('a \<Rightarrow> bool) \<Rightarrow> ('a \<Rightarrow> string) \<Rightarrow> 'a \<Rightarrow> bool" where
  "unique_enc ok enc x \<longleftrightarrow> (\<forall>y r r'. ok y \<longrightarrow> stop r \<longrightarrow> stop r' \<longrightarrow> enc x @ r = enc y @ r' \<longrightarrow> x = y \<and> r = r')"

lemma unique_encD:
  assumes "unique_enc ok enc x" and "ok y" and "stop r" and "stop r'" and "enc x @ r = enc y @ r'"
  shows "x = y" and "r = r'"
  using assms unfolding unique_enc_def by blast+

lemma join_unique:
  assumes "\<forall>x \<in> set xs. unique_enc ok enc x" and "\<forall>y \<in> set ys. ok y"
    and "\<forall>x \<in> set xs \<union> set ys. enc x \<noteq> [] \<and> hd (enc x) \<notin> {CHR '','', CHR '']'', CHR ''}''}"
    and "c \<in> {CHR '']'', CHR ''}''}"
    and "join (map enc xs) @ c # r = join (map enc ys) @ c # r'"
  shows "xs = ys \<and> r = r'"
  using assms
proof (induction xs arbitrary: ys)
  case Nil
  then show ?case
    by (cases ys) (auto simp: join_Cons, (metis hd_append hd_Cons_tl list.sel(1))+)
next
  case (Cons x xs)
  show ?case
  proof (cases ys)
    case Nil
    with Cons.prems show ?thesis
      by (auto simp: join_Cons) (metis hd_append list.sel(1))+
  next
    case (Cons y ys')
    define rest where "rest zs q = (if zs = [] then [] else CHR '','' # join (map enc zs)) @ c # q" for zs q
    have st: "stop (rest zs q)" for zs q using Cons.prems(4) by (auto simp: rest_def)
    have "enc x @ rest xs r = enc y @ rest ys' r'"
      using Cons.prems(5) Cons by (simp add: join_Cons rest_def)
    moreover have "unique_enc ok enc x" and "ok y" using Cons.prems(1,2) Cons by simp_all
    ultimately have xy: "x = y" "rest xs r = rest ys' r'"
      by (blast dest: unique_encD [OF _ _ st st])+
    then have "(xs = [] \<longleftrightarrow> ys' = []) \<and> join (map enc xs) @ c # r = join (map enc ys') @ c # r'"
      using Cons.prems(4) by (auto simp: rest_def split: if_splits)
    with Cons.IH [of ys'] Cons.prems(1-4) Cons xy(1) show ?thesis by simp
  qed
qed

locale delimited =
  fixes ok :: "'a \<Rightarrow> bool" and enc :: "'a \<Rightarrow> string"
  assumes unique: "ok x \<Longrightarrow> unique_enc ok enc x"
    and start: "ok x \<Longrightarrow> enc x \<noteq> [] \<and> hd (enc x) \<notin> {CHR '','', CHR '']'', CHR ''}''}"
begin

lemma inject: "ok x \<Longrightarrow> ok y \<Longrightarrow> enc x = enc y \<longleftrightarrow> x = y"
  using unique_encD(1) [OF unique, of x y "[]" "[]"] by auto

lemma array_inject:
  assumes "\<forall>x \<in> set xs \<union> set ys. ok x"
    and "join (map enc xs) @ CHR '']'' # r = join (map enc ys) @ CHR '']'' # r'"
  shows "xs = ys \<and> r = r'"
proof (rule join_unique [where ok = ok and enc = enc and c = "CHR '']''"])
  show "\<forall>x \<in> set xs \<union> set ys. enc x \<noteq> [] \<and> hd (enc x) \<notin> {CHR '','', CHR '']'', CHR ''}''}"
    using assms(1) start by blast
qed (use assms unique in simp_all)

end

lemma quote_start: "quote s \<noteq> [] \<and> hd (quote s) = dquote"
  by (simp add: quote_def)

lemma quote_unique:
  assumes "valid_utf8 s" and "valid_utf8 s'" and "quote s @ r = quote s' @ r'"
  shows "s = s' \<and> r = r'"
proof -
  have "tl (quote s) @ r = tl (quote s @ r)" using quote_start by simp
  also have "\<dots> = tl (quote s') @ r'" unfolding assms(3) using quote_start by simp
  finally have "string_bytes (tl (quote s) @ r) = string_bytes (tl (quote s') @ r')" by (rule arg_cong)
  then show ?thesis
    unfolding string_bytes_quote [OF assms(1)] string_bytes_quote [OF assms(2)] by simp
qed

interpretation str: delimited valid_utf8 quote
proof unfold_locales
  fix s
  assume "valid_utf8 s"
  then show "unique_enc valid_utf8 quote s"
    unfolding unique_enc_def using quote_unique by blast
  show "quote s \<noteq> [] \<and> hd (quote s) \<notin> {CHR '','', CHR '']'', CHR ''}''}"
    using quote_start [of s] by simp
qed

section \<open>JSON trees\<close>

datatype json =
    JNull
  | JBool bool
  | JNum "64 word"
  | JStr string
  | JArr "json list"
  | JObj "(string \<times> json) list"

text \<open>A \<^verbatim>\<open>float64\<close> is finite when its exponent bits are not all ones.\<close>

definition finite_float :: "64 word \<Rightarrow> bool" where
  "finite_float w \<longleftrightarrow> take_bit 11 (drop_bit 52 w) \<noteq> 0x7ff"

definition num_char :: "char \<Rightarrow> bool" where
  "num_char c \<longleftrightarrow> is_digit c \<or> c = CHR ''-'' \<or> c = CHR ''+'' \<or> c = CHR ''.'' \<or> c = CHR ''e''"

definition float_format :: "(64 word \<Rightarrow> string) \<Rightarrow> bool" where
  "float_format ff \<longleftrightarrow> inj_on ff {w. finite_float w} \<and>
     (\<forall>w. finite_float w \<longrightarrow> ff w \<noteq> [] \<and> list_all num_char (ff w))"

fun render :: "(64 word \<Rightarrow> string) \<Rightarrow> json \<Rightarrow> string" where
  "render ff JNull = ''null''"
| "render ff (JBool b) = (if b then ''true'' else ''false'')"
| "render ff (JNum w) = ff w"
| "render ff (JStr s) = quote s"
| "render ff (JArr xs) = CHR ''['' # join (map (render ff) xs) @ '']''"
| "render ff (JObj kvs) = CHR ''{'' # join (map (\<lambda>(k, v). quote k @ CHR '':'' # render ff v) kvs) @ ''}''"

text \<open>\<^verbatim>\<open>json.Marshal\<close> fails on a float that is not finite. Strings with invalid UTF-8 are
  accepted (their bad bytes become U+FFFD); \<open>json_ok\<close> marks the trees without them.\<close>

fun marshalable :: "json \<Rightarrow> bool" where
  "marshalable (JNum w) = finite_float w"
| "marshalable (JArr xs) = (\<forall>x \<in> set xs. marshalable x)"
| "marshalable (JObj kvs) = (\<forall>(k, v) \<in> set kvs. marshalable v)"
| "marshalable _ = True"

fun json_ok :: "json \<Rightarrow> bool" where
  "json_ok (JNum w) = finite_float w"
| "json_ok (JStr s) = valid_utf8 s"
| "json_ok (JArr xs) = (\<forall>x \<in> set xs. json_ok x)"
| "json_ok (JObj kvs) = (\<forall>(k, v) \<in> set kvs. valid_utf8 k \<and> json_ok v)"
| "json_ok _ = True"

text \<open>A Go map is marshalled with its keys in byte order, at every depth.\<close>

fun sort_maps :: "json \<Rightarrow> json" where
  "sort_maps (JArr xs) = JArr (map sort_maps xs)"
| "sort_maps (JObj kvs) = JObj (sort_key fst (map (\<lambda>(k, v). (k, sort_maps v)) kvs))"
| "sort_maps j = j"

definition Marshal :: "(64 word \<Rightarrow> string) \<Rightarrow> json \<Rightarrow> string option" where
  "Marshal ff j = (if marshalable j then Some (render ff j) else None)"

subsection \<open>Rendering is injective\<close>

text \<open>The first character of a rendered tree tells its constructor.\<close>

fun shape :: "json \<Rightarrow> nat" where
  "shape JNull = 0"
| "shape (JBool b) = (if b then 1 else 2)"
| "shape (JNum w) = 3"
| "shape (JStr s) = 4"
| "shape (JArr xs) = 5"
| "shape (JObj kvs) = 6"

definition shape_of_char :: "char \<Rightarrow> nat" where
  "shape_of_char c = (if c = CHR ''n'' then 0 else if c = CHR ''t'' then 1 else if c = CHR ''f'' then 2
     else if c = dquote then 4 else if c = CHR ''['' then 5 else if c = CHR ''{'' then 6 else 3)"

lemma num_char_shape:
  assumes "num_char c"
  shows "shape_of_char c = 3 \<and> c \<notin> {CHR '','', CHR '']'', CHR ''}''}"
proof -
  have "c \<noteq> CHR ''n'' \<and> c \<noteq> CHR ''t'' \<and> c \<noteq> CHR ''f'' \<and> c \<noteq> dquote \<and> c \<noteq> CHR ''['' \<and>
      c \<noteq> CHR ''{'' \<and> c \<noteq> CHR '','' \<and> c \<noteq> CHR '']'' \<and> c \<noteq> CHR ''}''" if "is_digit c"
    using that by (intro conjI notI; hypsubst) (simp_all add: is_digit_def)
  with assms show ?thesis
    unfolding num_char_def by (elim disjE) (simp_all add: shape_of_char_def)
qed

lemma render_start:
  assumes "float_format ff" and "json_ok j"
  shows "render ff j \<noteq> [] \<and> shape_of_char (hd (render ff j)) = shape j \<and>
    hd (render ff j) \<notin> {CHR '','', CHR '']'', CHR ''}''}"
proof (cases j)
  case (JNum w)
  with assms have "ff w \<noteq> []" "num_char (hd (ff w))"
    by (auto simp: float_format_def list_all_iff)
  with JNum show ?thesis using num_char_shape by simp
qed (use quote_start in \<open>simp_all add: shape_of_char_def\<close>)

lemma member_unique:
  assumes "unique_enc json_ok (render ff) v" and "valid_utf8 k"
  shows "unique_enc (\<lambda>(k, v). valid_utf8 k \<and> json_ok v) (\<lambda>(k, v). quote k @ CHR '':'' # render ff v) (k, v)"
  unfolding unique_enc_def
proof (intro allI impI)
  fix y r r'
  assume y: "case y of (k, v) \<Rightarrow> valid_utf8 k \<and> json_ok v" and st: "stop r" "stop r'"
    and eq: "(case (k, v) of (k, v) \<Rightarrow> quote k @ CHR '':'' # render ff v) @ r =
      (case y of (k, v) \<Rightarrow> quote k @ CHR '':'' # render ff v) @ r'"
  obtain k' v' where y': "y = (k', v')" by fastforce
  have "quote k @ CHR '':'' # render ff v @ r = quote k' @ CHR '':'' # render ff v' @ r'"
    using eq by (simp add: y')
  from quote_unique [OF assms(2) _ this] y have "k = k'" "render ff v @ r = render ff v' @ r'"
    by (simp_all add: y')
  moreover from this unique_encD [OF assms(1) _ st] y have "v = v'" "r = r'" by (auto simp: y')
  ultimately show "(k, v) = y \<and> r = r'" by (simp add: y')
qed

lemma array_cancel: "CHR ''['' # a @ '']'' @ r = CHR ''['' # b @ '']'' @ r' \<Longrightarrow> a @ CHR '']'' # r = b @ CHR '']'' # r'"
  and object_cancel: "CHR ''{'' # a @ ''}'' @ r = CHR ''{'' # b @ ''}'' @ r' \<Longrightarrow> a @ CHR ''}'' # r = b @ CHR ''}'' # r'"
  by simp_all

lemma same_shape:
  assumes "float_format ff" and "json_ok x" and "json_ok y" and "render ff x @ r = render ff y @ r'"
  shows "shape x = shape y"
proof -
  note x = render_start [OF assms(1,2)] and y = render_start [OF assms(1,3)]
  have "hd (render ff x) = hd (render ff y)" using assms(4) x y by (metis hd_append)
  with x y show ?thesis by simp
qed

lemma number_unique:
  assumes "float_format ff" and "finite_float w" and "finite_float w'"
    and "stop r" and "stop r'" and "ff w @ r = ff w' @ r'"
  shows "w = w' \<and> r = r'"
proof -
  have num: "\<forall>c \<in> set (ff v). num_char c" if "finite_float v" for v
    using assms(1) that by (simp add: float_format_def list_all_iff)
  have "stop q \<Longrightarrow> q = [] \<or> \<not> num_char (hd q)" for q
    using num_char_shape by (auto simp: stop_def)
  with prefix_code_stop [of "ff w" r "ff w'" r' num_char] num assms(2-)
  have "ff w = ff w' \<and> r = r'" by simp
  with assms(1-3) show ?thesis by (simp add: float_format_def inj_on_def)
qed

lemma object_unique:
  assumes "float_format ff" and "json_ok (JObj kvs)" and "json_ok (JObj kvs')"
    and "\<And>k v. (k, v) \<in> set kvs \<Longrightarrow> unique_enc json_ok (render ff) v"
    and "render ff (JObj kvs) @ r = render ff (JObj kvs') @ r'"
  shows "kvs = kvs' \<and> r = r'"
proof (rule join_unique [where c = "CHR ''}''"])
  let ?enc = "\<lambda>(k, v). quote k @ CHR '':'' # render ff v"
  show "\<forall>x \<in> set kvs. unique_enc (\<lambda>(k, v). valid_utf8 k \<and> json_ok v) ?enc x"
  proof
    fix x
    assume "x \<in> set kvs"
    moreover obtain k v where "x = (k, v)" by fastforce
    ultimately show "unique_enc (\<lambda>(k, v). valid_utf8 k \<and> json_ok v) ?enc x"
      using assms(2,4) member_unique by fastforce
  qed
  show "\<forall>x \<in> set kvs \<union> set kvs'. ?enc x \<noteq> [] \<and> hd (?enc x) \<notin> {CHR '','', CHR '']'', CHR ''}''}"
    using quote_start by (auto split: prod.splits)
qed (use assms(3,5) in simp_all)

lemma array_unique:
  assumes "float_format ff" and "json_ok (JArr xs)" and "json_ok (JArr ys)"
    and "\<forall>x \<in> set xs. unique_enc json_ok (render ff) x"
    and "render ff (JArr xs) @ r = render ff (JArr ys) @ r'"
  shows "xs = ys \<and> r = r'"
proof (rule join_unique [where c = "CHR '']''", OF assms(4)])
  show "\<forall>x \<in> set xs \<union> set ys. render ff x \<noteq> [] \<and> hd (render ff x) \<notin> {CHR '','', CHR '']'', CHR ''}''}"
    using assms(2,3) render_start [OF assms(1)] by fastforce
qed (use assms(3,5) in simp_all)

lemma render_uniqueI:
  assumes "float_format ff" and "json_ok j"
    and "\<And>y r r'. json_ok y \<Longrightarrow> stop r \<Longrightarrow> stop r' \<Longrightarrow> shape j = shape y \<Longrightarrow> render ff j @ r = render ff y @ r' \<Longrightarrow>
      j = y \<and> r = r'"
  shows "unique_enc json_ok (render ff) j"
  unfolding unique_enc_def using same_shape [OF assms(1,2)] assms(3) by blast

lemma render_unique:
  assumes ff: "float_format ff"
  shows "json_ok j \<Longrightarrow> unique_enc json_ok (render ff) j"
proof (induction j)
  case JNull
  then show ?case by (rule render_uniqueI [OF ff]) (case_tac y; auto split: if_splits)
next
  case (JBool b)
  then show ?case by (rule render_uniqueI [OF ff]) (case_tac y; auto split: if_splits)
next
  case (JNum w)
  show ?case
  proof (rule render_uniqueI [OF ff JNum])
    fix y r r'
    assume y: "json_ok y" "shape (JNum w) = shape y" and st: "stop r" "stop r'" and eq: "render ff (JNum w) @ r = render ff y @ r'"
    from y obtain w' where "y = JNum w'" by (cases y) (auto split: if_splits)
    with number_unique [OF ff _ _ st, of w w'] JNum y eq show "JNum w = y \<and> r = r'" by simp
  qed
next
  case (JStr s)
  show ?case
  proof (rule render_uniqueI [OF ff JStr])
    fix y r r'
    assume y: "json_ok y" "shape (JStr s) = shape y" and eq: "render ff (JStr s) @ r = render ff y @ r'"
    from y obtain s' where "y = JStr s'" by (cases y) (auto split: if_splits)
    with quote_unique [of s s' r r'] JStr y eq show "JStr s = y \<and> r = r'" by simp
  qed
next
  case (JArr xs)
  show ?case
  proof (rule render_uniqueI [OF ff JArr.prems])
    fix y r r'
    assume y: "json_ok y" "shape (JArr xs) = shape y" and eq: "render ff (JArr xs) @ r = render ff y @ r'"
    from y obtain ys where "y = JArr ys" by (cases y) (auto split: if_splits)
    with array_unique [OF ff JArr.prems, of ys r r'] JArr y eq show "JArr xs = y \<and> r = r'" by auto
  qed
next
  case (JObj kvs)
  show ?case
  proof (rule render_uniqueI [OF ff JObj.prems])
    fix y r r'
    assume y: "json_ok y" "shape (JObj kvs) = shape y" and eq: "render ff (JObj kvs) @ r = render ff y @ r'"
    from y obtain kvs' where "y = JObj kvs'" by (cases y) (auto split: if_splits)
    moreover have "unique_enc json_ok (render ff) v" if "(k, v) \<in> set kvs" for k v
      using JObj that by fastforce
    ultimately show "JObj kvs = y \<and> r = r'" using object_unique [OF ff JObj.prems] y eq by blast
  qed
qed

lemma delimited_render: "float_format ff \<Longrightarrow> delimited json_ok (render ff)"
  using render_unique render_start by unfold_locales blast+

lemmas render_inject = delimited.inject [OF delimited_render]

text \<open>The hypothesis on the float formatter can be met: the bit pattern in decimal.\<close>

lemma float_format_decimal: "float_format (\<lambda>w. decimal (unat w))"
  using decimal_digits by (auto simp: float_format_def inj_on_def list_all_iff num_char_def word_unat_eq_iff)

lemma json_ok_marshalable: "json_ok j \<Longrightarrow> marshalable j"
proof (induction j)
  case (JObj kvs)
  then show ?case by fastforce
qed auto

lemma json_ok_sort_maps [simp]: "json_ok (sort_maps j) \<longleftrightarrow> json_ok j"
proof (induction j)
  case (JObj kvs)
  then show ?case by fastforce
qed auto

lemma marshalable_sort_maps [simp]: "marshalable (sort_maps j) \<longleftrightarrow> marshalable j"
proof (induction j)
  case (JObj kvs)
  then show ?case by fastforce
qed auto

end
