(* ===== verification/Seal.thy ===== *)
theory Seal
  imports Go_Time Go_Json "HOL-Library.Multiset"
begin

text \<open>
  \<^verbatim>\<open>seal/seal.go\<close>: the per-row seal over an envelope's canonical bytes and the per-period
  checkpoint over the ordered row seals. The envelope is the broker's type, with the fields the
  program reads; its actor and resource are opaque (\<open>'a\<close>, \<open>'r\<close>), and the JSON trees
  they marshal to are arguments in \<open>codec\<close>. The main lemmas: the canonical bytes determine the
  sealed content (\<open>sealed_content\<close>: every sealed field, lists up to order), so a seal verifies for
  another envelope only with the same content or a MAC collision; likewise for checkpoints.
\<close>

section \<open>Envelopes\<close>

record ('a, 'r) envelope =
  EventID :: string
  OccurredAt :: time
  Categories :: "string list"
  EventType :: string
  Actor :: "'a option"
  DataSubjects :: "string list"
  Resource :: "'r option"
  Operation :: string
  LawfulBasis :: string
  Purpose :: string
  Outcome :: string
  IP :: string
  Device :: string
  Attributes :: "(string \<times> json) list"

text \<open>How the types outside the repository marshal: the JSON trees of an actor and of a resource,
  and the text of a finite float.\<close>

record ('a, 'r) codec =
  actor_json :: "'a \<Rightarrow> json"
  resource_json :: "'r \<Rightarrow> json"
  format_float :: "64 word \<Rightarrow> string"

section \<open>The sealer\<close>

record sealer =
  key :: string

definition New :: "string \<Rightarrow> error + sealer" where
  "New k = (if length k = 0 then Inl (SealError ''seal: empty key'') else Inr \<lparr>key = k\<rparr>)"

record ('a, 'r) canonicalView =
  cv_EventID :: string
  cv_OccurredAt :: string
  cv_Categories :: "string list"
  cv_EventType :: string
  cv_Actor :: "'a option"
  cv_DataSubjects :: "string list"
  cv_Resource :: "'r option"
  cv_Operation :: string
  cv_LawfulBasis :: string
  cv_Purpose :: string
  cv_Outcome :: string
  cv_IP :: string
  cv_Device :: string
  cv_Attributes :: "(string \<times> json) list"

text \<open>The view \<^verbatim>\<open>canonical\<close> builds, and the tree its struct tags give: \<^verbatim>\<open>omitempty\<close>
  leaves a field out when it is empty or nil.\<close>

definition canonical_view :: "('a, 'r) envelope \<Rightarrow> ('a, 'r) canonicalView" where
  "canonical_view e =
     \<lparr>cv_EventID = EventID e,
      cv_OccurredAt = format_rfc3339nano (OccurredAt e),
      cv_Categories = sort (Categories e),
      cv_EventType = EventType e,
      cv_Actor = Actor e,
      cv_DataSubjects = sort (DataSubjects e),
      cv_Resource = Resource e,
      cv_Operation = Operation e,
      cv_LawfulBasis = LawfulBasis e,
      cv_Purpose = Purpose e,
      cv_Outcome = Outcome e,
      cv_IP = IP e,
      cv_Device = Device e,
      cv_Attributes = Attributes e\<rparr>"

definition omit_str :: "string \<Rightarrow> string \<Rightarrow> (string \<times> json) list" where
  "omit_str k s = (if s = [] then [] else [(k, JStr s)])"

definition omit_ptr :: "('p \<Rightarrow> json) \<Rightarrow> string \<Rightarrow> 'p option \<Rightarrow> (string \<times> json) list" where
  "omit_ptr f k p = (case p of None \<Rightarrow> [] | Some x \<Rightarrow> [(k, f x)])"

definition view_fields :: "('a, 'r) codec \<Rightarrow> ('a, 'r) canonicalView \<Rightarrow> (string \<times> json) list" where
  "view_fields c v =
     [(''event_id'', JStr (cv_EventID v)),
      (''occurred_at'', JStr (cv_OccurredAt v)),
      (''category'', JArr (map JStr (cv_Categories v))),
      (''event_type'', JStr (cv_EventType v))] @
     omit_ptr (actor_json c) ''actor'' (cv_Actor v) @
     (if cv_DataSubjects v = [] then [] else [(''data_subjects'', JArr (map JStr (cv_DataSubjects v)))]) @
     omit_ptr (resource_json c) ''resource'' (cv_Resource v) @
     omit_str ''operation'' (cv_Operation v) @
     omit_str ''lawful_basis'' (cv_LawfulBasis v) @
     omit_str ''purpose'' (cv_Purpose v) @
     [(''outcome'', JStr (cv_Outcome v))] @
     omit_str ''ip'' (cv_IP v) @
     omit_str ''device'' (cv_Device v) @
     (if cv_Attributes v = [] then [] else [(''attributes'', sort_maps (JObj (cv_Attributes v)))])"

text \<open>\<^verbatim>\<open>canonical\<close>; a nil envelope is \<open>None\<close>.\<close>

definition canonical :: "('a, 'r) codec \<Rightarrow> ('a, 'r) envelope option \<Rightarrow> error + string" where
  "canonical c oe =
     (case oe of
        None \<Rightarrow> Inl (SealError ''seal: nil envelope'')
      | Some e \<Rightarrow>
          (case Marshal (format_float c) (JObj (view_fields c (canonical_view e))) of
             None \<Rightarrow> Inl (ExternalError ''json: unsupported value'')
           | Some b \<Rightarrow> Inr b))"

definition Seal :: "('a, 'r) codec \<Rightarrow> sealer \<Rightarrow> ('a, 'r) envelope option \<Rightarrow> error + string" where
  "Seal c s e =
     (case canonical c e of
        Inl err \<Rightarrow> Inl err
      | Inr b \<Rightarrow> Inr (EncodeToString (hmac_sha256 (key s) b)))"

definition Verify :: "('a, 'r) codec \<Rightarrow> sealer \<Rightarrow> ('a, 'r) envelope option \<Rightarrow> string \<Rightarrow> bool" where
  "Verify c s e want =
     (case Seal c s e of
        Inl err \<Rightarrow> False
      | Inr got \<Rightarrow> hmac_Equal got want)"

text \<open>The bytes \<^verbatim>\<open>Checkpoint\<close> writes to the MAC, and the checkpoint.\<close>

definition newline :: char where "newline = CHR 0x0A"

definition checkpoint_bytes :: "string list \<Rightarrow> int \<Rightarrow> string" where
  "checkpoint_bytes seals n =
     ''n='' @ appendInt n 0 @ [newline] @ concat (map (\<lambda>x. x @ [newline]) seals)"

definition Checkpoint :: "sealer \<Rightarrow> string list \<Rightarrow> int \<Rightarrow> string" where
  "Checkpoint s seals n = EncodeToString (hmac_sha256 (key s) (checkpoint_bytes seals n))"

definition VerifyCheckpoint :: "sealer \<Rightarrow> string list \<Rightarrow> int \<Rightarrow> string \<Rightarrow> bool" where
  "VerifyCheckpoint s seals n want = hmac_Equal (Checkpoint s seals n) want"

section \<open>What the canonical bytes determine\<close>

text \<open>The content a seal attests: every sealed field, with \<^verbatim>\<open>data_subjects\<close> and
  \<^verbatim>\<open>category\<close> up to order and attribute maps up to the order of their keys.\<close>

definition sealed_content where
  "sealed_content e =
     ((EventID e, OccurredAt e, mset (Categories e), EventType e),
      (Actor e, mset (DataSubjects e), Resource e, Operation e, LawfulBasis e),
      (Purpose e, Outcome e, IP e, Device e, sort_maps (JObj (Attributes e))))"

text \<open>An envelope as the JSON decoder produces it: valid UTF-8 throughout, finite numbers, a year of
  four digits.\<close>

definition envelope_ok :: "('a, 'r) codec \<Rightarrow> ('a, 'r) envelope \<Rightarrow> bool" where
  "envelope_ok c e \<longleftrightarrow>
     0 \<le> year_of (OccurredAt e) \<and> year_of (OccurredAt e) \<le> 9999 \<and>
     list_all valid_utf8 [EventID e, EventType e, Operation e, LawfulBasis e, Purpose e, Outcome e, IP e, Device e] \<and>
     list_all valid_utf8 (Categories e) \<and> list_all valid_utf8 (DataSubjects e) \<and>
     pred_option (\<lambda>a. json_ok (actor_json c a)) (Actor e) \<and>
     pred_option (\<lambda>r. json_ok (resource_json c r)) (Resource e) \<and>
     json_ok (JObj (Attributes e))"

definition codec_ok :: "('a, 'r) codec \<Rightarrow> bool" where
  "codec_ok c \<longleftrightarrow> inj (actor_json c) \<and> inj (resource_json c) \<and> float_format (format_float c)"

lemma sort_eq_iff_mset: "sort xs = sort ys \<longleftrightarrow> mset xs = mset ys"
  by (metis mset_sort properties_for_sort sorted_sort)

subsection \<open>Formatted times are ASCII\<close>

definition ascii :: "string \<Rightarrow> bool" where
  "ascii s \<longleftrightarrow> (\<forall>c \<in> set s. (of_char c :: nat) < 128)"

lemma ascii_simps [simp]: "ascii []" "ascii (c # s) \<longleftrightarrow> (of_char c :: nat) < 128 \<and> ascii s"
  "ascii (s @ t) \<longleftrightarrow> ascii s \<and> ascii t"
  by (auto simp: ascii_def)

lemma ascii_digits: "list_all is_digit s \<Longrightarrow> ascii s"
  by (auto simp: ascii_def list_all_iff is_digit_def)

lemma ascii_decimal [simp]: "ascii (decimal n)"
  using decimal_digits by (intro ascii_digits) (simp add: list_all_iff)

lemma ascii_pad [simp]: "ascii (pad w n)"
  by (simp add: pad_def) (simp add: ascii_def)

lemma ascii_strip_zeros: "ascii s \<Longrightarrow> ascii (strip_zeros s)"
  by (auto simp: ascii_def strip_zeros_def dest: set_dropWhileD)

lemma ascii_format_rfc3339nano [simp]: "ascii (format_rfc3339nano t)"
  by (simp add: format_rfc3339nano_def format_date_def appendInt_def format_clock_def Let_def
      format_frac_def ascii_strip_zeros split: prod.splits)

lemma valid_format_rfc3339nano [simp]: "valid_utf8 (format_rfc3339nano t)"
  using ascii_format_rfc3339nano [of t] by (intro valid_ascii) (simp add: ascii_def)

subsection \<open>The fields of the view\<close>

lemma map_of_omit_str [simp]:
  "map_of (omit_str k s) k' = (if k' = k \<and> s \<noteq> [] then Some (JStr s) else None)"
  by (simp add: omit_str_def)

lemma map_of_omit_ptr [simp]:
  "map_of (omit_ptr f k p) k' = (if k' = k then map_option f p else None)"
  by (simp add: omit_ptr_def split: option.splits)

lemma map_of_if: "map_of (if b then xs else ys) k = (if b then map_of xs k else map_of ys k)"
  by simp

lemma view_lookup:
  "map_of (view_fields c v) ''event_id'' = Some (JStr (cv_EventID v))"
  "map_of (view_fields c v) ''occurred_at'' = Some (JStr (cv_OccurredAt v))"
  "map_of (view_fields c v) ''category'' = Some (JArr (map JStr (cv_Categories v)))"
  "map_of (view_fields c v) ''event_type'' = Some (JStr (cv_EventType v))"
  "map_of (view_fields c v) ''actor'' = map_option (actor_json c) (cv_Actor v)"
  "map_of (view_fields c v) ''data_subjects'' =
     (if cv_DataSubjects v = [] then None else Some (JArr (map JStr (cv_DataSubjects v))))"
  "map_of (view_fields c v) ''resource'' = map_option (resource_json c) (cv_Resource v)"
  "map_of (view_fields c v) ''operation'' = (if cv_Operation v = [] then None else Some (JStr (cv_Operation v)))"
  "map_of (view_fields c v) ''lawful_basis'' = (if cv_LawfulBasis v = [] then None else Some (JStr (cv_LawfulBasis v)))"
  "map_of (view_fields c v) ''purpose'' = (if cv_Purpose v = [] then None else Some (JStr (cv_Purpose v)))"
  "map_of (view_fields c v) ''outcome'' = Some (JStr (cv_Outcome v))"
  "map_of (view_fields c v) ''ip'' = (if cv_IP v = [] then None else Some (JStr (cv_IP v)))"
  "map_of (view_fields c v) ''device'' = (if cv_Device v = [] then None else Some (JStr (cv_Device v)))"
  "map_of (view_fields c v) ''attributes'' =
     (if cv_Attributes v = [] then None else Some (sort_maps (JObj (cv_Attributes v))))"
  by (simp_all add: view_fields_def map_add_def map_of_if split: option.split)

lemma inj_map_option: "inj f \<Longrightarrow> map_option f x = map_option f y \<longleftrightarrow> x = y"
  by (metis injD option.inj_map)

lemma map_JStr_inject: "map JStr xs = map JStr ys \<longleftrightarrow> xs = ys"
  by (simp add: inj_map_eq_map inj_on_def)

lemma omit_inject:
  "(if s = [] then None else Some (JStr s)) = (if s' = [] then None else Some (JStr s')) \<longleftrightarrow> s = s'"
  "(if xs = [] then None else Some (JArr (map JStr xs))) =
     (if ys = [] then None else Some (JArr (map JStr ys))) \<longleftrightarrow> xs = ys"
  by (auto simp: map_JStr_inject)

lemma omit_attributes_inject:
  "(if a = [] then None else Some (sort_maps (JObj a))) =
     (if b = [] then None else Some (sort_maps (JObj b))) \<longleftrightarrow> sort_maps (JObj a) = sort_maps (JObj b)"
proof -
  define f where "f = (\<lambda>(k :: string, v). (k, sort_maps v))"
  have sm: "sort_maps (JObj x) = JObj (sort_key fst (map f x))" for x by (simp add: f_def)
  have "sort_key fst (map f a) = sort_key fst (map f b) \<Longrightarrow> length a = length b"
    by (drule arg_cong [of _ _ length]) (simp only: length_sort length_map)
  then show ?thesis unfolding sm json.inject
    by (cases "a = []"; cases "b = []") auto
qed

text \<open>The view, field by field, as its fields can be read back from the rendered object.\<close>

definition view_content where
  "view_content v =
     ((cv_EventID v, cv_OccurredAt v, cv_Categories v, cv_EventType v),
      (cv_Actor v, cv_DataSubjects v, cv_Resource v, cv_Operation v, cv_LawfulBasis v),
      (cv_Purpose v, cv_Outcome v, cv_IP v, cv_Device v, sort_maps (JObj (cv_Attributes v))))"

lemma view_fields_inject:
  assumes c: "codec_ok c" and "view_fields c v = view_fields c v'"
  shows "view_content v = view_content v'"
proof -
  have eq: "map_of (view_fields c v) k = map_of (view_fields c v') k" for k unfolding assms(2) ..
  note eqs = eq [of "''event_id''"] eq [of "''occurred_at''"] eq [of "''category''"] eq [of "''event_type''"]
    eq [of "''actor''"] eq [of "''data_subjects''"] eq [of "''resource''"] eq [of "''operation''"]
    eq [of "''lawful_basis''"] eq [of "''purpose''"] eq [of "''outcome''"] eq [of "''ip''"]
    eq [of "''device''"] eq [of "''attributes''"]
  have inj: "inj (actor_json c)" "inj (resource_json c)" using c by (simp_all add: codec_ok_def)
  show ?thesis
    using eqs unfolding view_lookup omit_inject omit_attributes_inject option.inject json.inject
      map_JStr_inject inj_map_option [OF inj(1)] inj_map_option [OF inj(2)] view_content_def
    by (simp only:)
qed

lemma view_fields_content: "view_content v = view_content v' \<Longrightarrow> view_fields c v = view_fields c v'"
  using omit_attributes_inject [of "cv_Attributes v" "cv_Attributes v'"]
  unfolding view_content_def view_fields_def prod.inject
  by (simp only: split: if_splits) (simp_all del: sort_maps.simps)

lemma valid_keys [simp]:
  "valid_utf8 ''event_id''" "valid_utf8 ''occurred_at''" "valid_utf8 ''category''" "valid_utf8 ''event_type''"
  "valid_utf8 ''actor''" "valid_utf8 ''data_subjects''" "valid_utf8 ''resource''" "valid_utf8 ''operation''"
  "valid_utf8 ''lawful_basis''" "valid_utf8 ''purpose''" "valid_utf8 ''outcome''" "valid_utf8 ''ip''"
  "valid_utf8 ''device''" "valid_utf8 ''attributes''"
  by (rule valid_ascii, simp)+

lemma view_json_ok:
  assumes "envelope_ok c e"
  shows "json_ok (JObj (view_fields c (canonical_view e)))"
proof -
  define a where "a = sort_maps (JObj (Attributes e))"
  have "json_ok a" unfolding a_def json_ok_sort_maps using assms unfolding envelope_ok_def by blast
  with assms show ?thesis
    unfolding view_fields_def canonical_view_def canonicalView.simps a_def [symmetric] envelope_ok_def
      omit_str_def omit_ptr_def
    by (cases "Actor e"; cases "Resource e") (simp_all add: list_all_iff)
qed

text \<open>Sealing such an envelope never fails, and its canonical bytes determine its content.\<close>

lemma canonical_ok: "envelope_ok c e \<Longrightarrow>
    canonical c (Some e) = Inr (render (format_float c) (JObj (view_fields c (canonical_view e))))"
  using json_ok_marshalable [OF view_json_ok [of c e]] unfolding canonical_def Marshal_def by simp

lemma view_content_sealed:
  assumes "envelope_ok c e" and "envelope_ok c e'"
  shows "view_content (canonical_view e) = view_content (canonical_view e') \<longleftrightarrow>
    sealed_content e = sealed_content e'"
proof -
  have "format_rfc3339nano (OccurredAt e) = format_rfc3339nano (OccurredAt e') \<longleftrightarrow> OccurredAt e = OccurredAt e'"
    using assms by (intro format_rfc3339nano_inject) (auto simp: envelope_ok_def)
  then show ?thesis
    unfolding view_content_def canonical_view_def canonicalView.simps sealed_content_def prod.inject
      sort_eq_iff_mset by blast
qed

lemma canonical_eq_iff:
  assumes "codec_ok c" and "envelope_ok c e" and "envelope_ok c e'"
  shows "canonical c (Some e) = canonical c (Some e') \<longleftrightarrow> sealed_content e = sealed_content e'"
proof -
  have "canonical c (Some e) = canonical c (Some e') \<longleftrightarrow>
      view_fields c (canonical_view e) = view_fields c (canonical_view e')"
    unfolding canonical_ok [OF assms(2)] canonical_ok [OF assms(3)]
    using render_inject [OF _ view_json_ok [OF assms(2)] view_json_ok [OF assms(3)], of "format_float c"] assms(1)
    by (simp only: codec_ok_def sum.inject json.inject)
  also have "\<dots> \<longleftrightarrow> view_content (canonical_view e) = view_content (canonical_view e')"
    using view_fields_inject [OF assms(1)] view_fields_content by blast
  also have "\<dots> \<longleftrightarrow> sealed_content e = sealed_content e'"
    by (rule view_content_sealed [OF assms(2,3)])
  finally show ?thesis .
qed

section \<open>Seals\<close>

lemma Seal_ok:
  assumes "envelope_ok c e"
  obtains b where "canonical c (Some e) = Inr b"
    and "Seal c s (Some e) = Inr (EncodeToString (hmac_sha256 (key s) b))"
  using canonical_ok [OF assms] by (simp add: Seal_def)

lemma Verify_Seal: "Seal c s e = Inr h \<Longrightarrow> Verify c s e h"
  by (simp add: Verify_def)

lemma Verify_iff: "Verify c s e h \<longleftrightarrow> Seal c s e = Inr h"
  by (cases "Seal c s e") (auto simp: Verify_def)

lemma Seal_hex: "Seal c s e = Inr h \<Longrightarrow> length h = 64 \<and> list_all is_hex h"
  by (auto simp: Seal_def length_EncodeToString length_hmac_sha256 EncodeToString_hex split: sum.splits)

lemma Checkpoint_hex: "length (Checkpoint s seals n) = 64 \<and> list_all is_hex (Checkpoint s seals n)"
  by (simp add: Checkpoint_def length_EncodeToString length_hmac_sha256 EncodeToString_hex)

lemma Verify_content:
  assumes "codec_ok c" and "envelope_ok c e" and "envelope_ok c e'"
    and "canonical c (Some e) = Inr b" and "canonical c (Some e') = Inr b'" and "Seal c s (Some e) = Inr h"
  shows "Verify c s (Some e') h \<longleftrightarrow> sealed_content e = sealed_content e' \<or> mac_collision (key s) b b'"
proof -
  have "Verify c s (Some e') h \<longleftrightarrow> hmac_sha256 (key s) b = hmac_sha256 (key s) b'"
    using assms(4-6) by (auto simp: Verify_iff Seal_def)
  also have "\<dots> \<longleftrightarrow> b = b' \<or> mac_collision (key s) b b'" by (rule hmac_sha256_eq_iff)
  also have "b = b' \<longleftrightarrow> sealed_content e = sealed_content e'"
    using canonical_eq_iff [OF assms(1-3)] assms(4,5) by simp
  finally show ?thesis .
qed

section \<open>Checkpoints\<close>

definition no_newline :: "string \<Rightarrow> bool" where
  "no_newline s \<longleftrightarrow> newline \<notin> set s"

lemma hex_no_newline: "list_all is_hex s \<Longrightarrow> no_newline s"
  by (auto simp: no_newline_def newline_def list_all_iff is_hex_def is_digit_def)

lemma newline_split:
  assumes "x @ newline # r = y @ newline # r'" and "no_newline x" and "no_newline y"
  shows "x = y \<and> r = r'"
  using prefix_code_stop [of x "newline # r" y "newline # r'" "\<lambda>c. c \<noteq> newline"] assms
  by (auto simp: no_newline_def)

lemma lines_inject:
  assumes "\<forall>x \<in> set xs \<union> set ys. no_newline x"
    and "concat (map (\<lambda>x. x @ [newline]) xs) = concat (map (\<lambda>x. x @ [newline]) ys)"
  shows "xs = ys"
  using assms
proof (induction xs arbitrary: ys)
  case Nil
  then show ?case by (cases ys) auto
next
  case (Cons x xs)
  then obtain y ys' where ys: "ys = y # ys'" by (cases ys) auto
  with Cons.prems have "x = y \<and> concat (map (\<lambda>x. x @ [newline]) xs) = concat (map (\<lambda>x. x @ [newline]) ys')"
    by (intro newline_split) auto
  with Cons.IH [of ys'] Cons.prems(1) ys show ?case by simp
qed

lemma pad_0 [simp]: "pad 0 n = decimal n"
  by (simp add: pad_def)

lemma appendInt_no_newline: "no_newline (appendInt n 0)"
  using decimal_digits by (fastforce simp: appendInt_def no_newline_def newline_def is_digit_def)

lemma decimal_not_minus: "decimal n \<noteq> CHR ''-'' # s"
proof
  assume "decimal n = CHR ''-'' # s"
  then have "is_digit (CHR ''-'')" using decimal_digits [of n] by simp
  then show False by (simp add: is_digit_def)
qed

lemma appendInt_inject: "appendInt m 0 = appendInt n 0 \<longleftrightarrow> m = n"
  using decimal_not_minus [THEN not_sym] decimal_not_minus
  by (auto simp: appendInt_def eq_nat_nat_iff)

lemma checkpoint_bytes_inject:
  assumes "\<forall>x \<in> set xs \<union> set ys. no_newline x"
  shows "checkpoint_bytes xs m = checkpoint_bytes ys n \<longleftrightarrow> xs = ys \<and> m = n"
proof
  assume "checkpoint_bytes xs m = checkpoint_bytes ys n"
  then have "appendInt m 0 @ newline # concat (map (\<lambda>x. x @ [newline]) xs) =
      appendInt n 0 @ newline # concat (map (\<lambda>x. x @ [newline]) ys)"
    by (simp add: checkpoint_bytes_def)
  from newline_split [OF this appendInt_no_newline appendInt_no_newline] lines_inject [OF assms]
  show "xs = ys \<and> m = n" by (simp add: appendInt_inject)
qed simp

lemma VerifyCheckpoint_iff:
  assumes "\<forall>x \<in> set xs \<union> set ys. no_newline x"
  shows "VerifyCheckpoint s ys n (Checkpoint s xs m) \<longleftrightarrow>
    (ys = xs \<and> n = m) \<or> mac_collision (key s) (checkpoint_bytes ys n) (checkpoint_bytes xs m)"
  using checkpoint_bytes_inject [of ys xs n m] assms
  by (auto simp: VerifyCheckpoint_def Checkpoint_def hmac_sha256_eq_iff)

section \<open>Properties\<close>

text \<open>A concrete codec and envelope, to instantiate the properties.\<close>

definition sample_codec :: "(string, string) codec" where
  "sample_codec = \<lparr>actor_json = JStr, resource_json = JStr, format_float = (\<lambda>w. decimal (unat w))\<rparr>"

definition sample_envelope :: "(string, string) envelope" where
  "sample_envelope =
     \<lparr>EventID = ''ev-1'', OccurredAt = Date 2024 5 17, Categories = [''gdpr_access''], EventType = ''record.read'',
      Actor = Some ''svc:crm'', DataSubjects = [''usr_1'', ''usr_2''], Resource = None, Operation = ''read'',
      LawfulBasis = ''contract'', Purpose = [], Outcome = ''success'', IP = [], Device = [],
      Attributes = [(''channel'', JStr ''web'')]\<rparr>"

definition sample_sealer :: sealer where
  "sample_sealer = \<lparr>key = ''test-seal-key-not-a-secret-000000000000''\<rparr>"

lemma sample_codec_ok: "codec_ok sample_codec"
  by (simp add: codec_ok_def sample_codec_def float_format_decimal inj_def)

lemma DateOf_sample [simp]: "DateOf (Date 2024 5 17) = (2024, 5, 17)"
  by (intro DateOf_Date) (simp_all add: days_in_def days_before_month_def is_leap_def)

lemma sample_envelope_ok: "envelope_ok sample_codec (sample_envelope\<lparr>Outcome := ''success''\<rparr>)"
    "envelope_ok sample_codec (sample_envelope\<lparr>Outcome := ''denied''\<rparr>)"
    "envelope_ok sample_codec (sample_envelope\<lparr>DataSubjects := [''usr_2'', ''usr_1'']\<rparr>)"
    "envelope_ok sample_codec sample_envelope"
  by (simp_all add: envelope_ok_def sample_envelope_def sample_codec_def valid_ascii)

definition canonical_bytes :: "('a, 'r) codec \<Rightarrow> ('a, 'r) envelope \<Rightarrow> string" where
  "canonical_bytes c e = (case canonical c (Some e) of Inl err \<Rightarrow> [] | Inr b \<Rightarrow> b)"

text \<open>C32: sealing never fails on an envelope the decoder produces, the seal is 64 lower-case hex
  digits, and the envelope verifies under it.\<close>

theorem seal_total:
  assumes "envelope_ok c e"
  shows "\<exists>h. Seal c s (Some e) = Inr h \<and> length h = 64 \<and> list_all is_hex h \<and> Verify c s (Some e) h"
proof -
  obtain h where h: "Seal c s (Some e) = Inr h" using Seal_ok [OF assms, of s] by blast
  then show ?thesis using Seal_hex [OF h] Verify_Seal [OF h] by blast
qed

theorem seal_total_witness:
  "\<exists>h. Seal sample_codec sample_sealer (Some sample_envelope) = Inr h \<and> length h = 64 \<and> list_all is_hex h \<and>
     Verify sample_codec sample_sealer (Some sample_envelope) h"
  by (rule seal_total [OF sample_envelope_ok(4)])

text \<open>C1: tamper evidence of a row. A stored seal verifies for another envelope exactly when that
  envelope has the same sealed content, or the canonical bytes of the two collide under the
  MAC: no other change of any sealed field goes unnoticed.\<close>

theorem seal_tamper_evident:
  assumes "codec_ok c" and "envelope_ok c e" and "envelope_ok c e'" and "Seal c s (Some e) = Inr h"
  shows "Verify c s (Some e') h \<longleftrightarrow>
    sealed_content e = sealed_content e' \<or> mac_collision (key s) (canonical_bytes c e) (canonical_bytes c e')"
proof -
  obtain b b' where "canonical c (Some e) = Inr b" "canonical c (Some e') = Inr b'"
    using canonical_ok [OF assms(2)] canonical_ok [OF assms(3)] by blast
  then show ?thesis using Verify_content [OF assms(1-3) _ _ assms(4)] by (simp add: canonical_bytes_def)
qed

theorem seal_tamper_evident_witness:
  "\<exists>h. Seal sample_codec sample_sealer (Some sample_envelope) = Inr h \<and>
     (Verify sample_codec sample_sealer (Some (sample_envelope\<lparr>Outcome := ''denied''\<rparr>)) h \<longleftrightarrow>
        mac_collision (key sample_sealer) (canonical_bytes sample_codec sample_envelope)
          (canonical_bytes sample_codec (sample_envelope\<lparr>Outcome := ''denied''\<rparr>)))"
proof -
  obtain h where h: "Seal sample_codec sample_sealer (Some sample_envelope) = Inr h"
    using Seal_ok [OF sample_envelope_ok(4)] by blast
  have "sealed_content sample_envelope \<noteq> sealed_content (sample_envelope\<lparr>Outcome := ''denied''\<rparr>)"
    by (simp add: sealed_content_def sample_envelope_def)
  with seal_tamper_evident [OF sample_codec_ok sample_envelope_ok(4,2) h] h show ?thesis by blast
qed

text \<open>The canonical form is deterministic and complete. Two envelopes have the same canonical
  bytes exactly when they agree on every sealed field, the category and data-subject lists up to
  order and attribute maps up to the order of their keys.\<close>

theorem canonical_determines_content:
  assumes "codec_ok c" and "envelope_ok c e" and "envelope_ok c e'"
  shows "canonical c (Some e) = canonical c (Some e') \<longleftrightarrow> sealed_content e = sealed_content e'"
  by (rule canonical_eq_iff [OF assms])

theorem canonical_determines_content_witness:
  "canonical sample_codec (Some sample_envelope) =
   canonical sample_codec (Some (sample_envelope\<lparr>DataSubjects := [''usr_2'', ''usr_1'']\<rparr>))"
proof -
  have "sealed_content sample_envelope = sealed_content (sample_envelope\<lparr>DataSubjects := [''usr_2'', ''usr_1'']\<rparr>)"
    by (simp add: sealed_content_def sample_envelope_def add_mset_commute)
  then show ?thesis
    using canonical_determines_content [OF sample_codec_ok sample_envelope_ok(4,3)] by blast
qed

text \<open>C11: tamper evidence of a period. Against a checkpoint over the seals \<open>xs\<close> with count
  \<open>m\<close>, the seals \<open>ys\<close> with count \<open>n\<close> verify exactly when they are the same list and the
  same count, or the MAC collides: a row added, removed, changed or moved is detected.\<close>

theorem checkpoint_tamper_evident:
  assumes "\<forall>x \<in> set xs \<union> set ys. list_all is_hex x"
  shows "VerifyCheckpoint s ys n (Checkpoint s xs m) \<longleftrightarrow>
    (ys = xs \<and> n = m) \<or> mac_collision (key s) (checkpoint_bytes ys n) (checkpoint_bytes xs m)"
  using assms hex_no_newline by (intro VerifyCheckpoint_iff) blast

theorem checkpoint_tamper_evident_witness:
  "VerifyCheckpoint sample_sealer [''0a''] 1 (Checkpoint sample_sealer [''0a'', ''1b''] 2) \<longleftrightarrow>
     mac_collision (key sample_sealer) (checkpoint_bytes [''0a''] 1) (checkpoint_bytes [''0a'', ''1b''] 2)"
  using checkpoint_tamper_evident [of "[''0a'', ''1b'']" "[''0a'']" sample_sealer 1 2]
  by (simp add: is_hex_def is_digit_def)

end
