(* ===== verification/Store.thy ===== *)
theory Store
  imports Seal
begin

text \<open>
  \<^verbatim>\<open>store/store.go\<close> and the types of \<^verbatim>\<open>store/verify.go\<close>: the persisted
  types, the retention period of an instant, and the \<^verbatim>\<open>Store\<close> interface as a record of
  operations over a state \<open>'s\<close>. Every operation returns an error or a result together with the
  state after it; what it reads from outside the program (the clock, a ULID) is its \<open>world\<close>
  argument. The abstract specification of the interface is a keyed log (\<open>spec\<close>) with one
  specification function per operation; the locale \<open>store_contract\<close> says that an implementation
  refines it, and that an operation that fails leaves it unchanged.
\<close>

section \<open>Persisted types\<close>

record ('a, 'r) access_record =
  RowID :: string
  Envelope :: "('a, 'r) envelope"
  RowSeal :: string
  Seq :: int
  SourceService :: string
  System :: string

record AppendResult =
  RecordID :: string
  ResEventID :: string
  Duplicate :: bool

record checkpoint =
  CpPeriod :: string
  RowCount :: int
  CpSeal :: string
  SealedAt :: time

record PurgeResult =
  Cutoff :: string
  Purged :: int
  RetainedUnderHold :: int

record VerifyEvent =
  TS :: time
  EvIP :: string
  UserAgent :: string
  SizeBytes :: int
  SHA256 :: string
  Verdict :: string
  CorrelationID :: string
  SessionID :: string
  EvSourceService :: string

record VerifySweepResult =
  SweepCutoff :: string
  SweepPurged :: int

text \<open>\<^verbatim>\<open>Period\<close>: the first day of the month, in UTC.\<close>

definition Period :: "time \<Rightarrow> string" where
  "Period t = (case DateOf t of (y, m, d) \<Rightarrow> format_date (DateOf (Date y m 1)))"

text \<open>What one call reads from outside the program: \<^verbatim>\<open>time.Now()\<close> and
  \<^verbatim>\<open>ulid.Make()\<close>.\<close>

record world =
  now :: time
  ulid :: string

section \<open>The interface\<close>

record ('s, 'a, 'r) Store =
  Append :: "world \<Rightarrow> ('a, 'r) access_record \<Rightarrow> 's \<Rightarrow> (error + AppendResult) \<times> 's"
  BySubject :: "string \<Rightarrow> time \<Rightarrow> time \<Rightarrow> int \<Rightarrow> 's \<Rightarrow> (error + ('a, 'r) access_record list) \<times> 's"
  SealsForPeriod :: "string \<Rightarrow> 's \<Rightarrow> (error + string list \<times> int) \<times> 's"
  PendingCheckpointPeriods :: "string \<Rightarrow> 's \<Rightarrow> (error + string list) \<times> 's"
  SaveCheckpoint :: "world \<Rightarrow> checkpoint \<Rightarrow> 's \<Rightarrow> (error + bool) \<times> 's"
  LoadCheckpoint :: "string \<Rightarrow> 's \<Rightarrow> (error + checkpoint option) \<times> 's"
  SetLegalHold :: "string \<Rightarrow> string \<Rightarrow> string \<Rightarrow> bool \<Rightarrow> 's \<Rightarrow> (error + unit) \<times> 's"
  PurgeExpired :: "string \<Rightarrow> 's \<Rightarrow> (error + PurgeResult) \<times> 's"
  AppendVerifyEvent :: "world \<Rightarrow> VerifyEvent \<Rightarrow> 's \<Rightarrow> (error + string) \<times> 's"
  SweepVerifyExpired :: "world \<Rightarrow> int \<Rightarrow> 's \<Rightarrow> (error + VerifySweepResult) \<times> 's"
  Ping :: "'s \<Rightarrow> (error + unit) \<times> 's"

section \<open>Periods\<close>

lemma Period_eq: "Period t = format_date (year_of t, month_of t, 1)"
proof -
  obtain y m d where t: "DateOf t = (y, m, d)" by (metis prod_cases3)
  have "1 \<le> m" "m \<le> 12" using month_of_range [of t] by (simp_all add: t)
  then have "DateOf (Date y m 1) = (y, m, 1)"
    using days_in_pos [of m y] by (intro DateOf_Date) simp_all
  then show ?thesis by (simp add: Period_def t)
qed

definition common_era :: "time \<Rightarrow> bool" where
  "common_era t \<longleftrightarrow> 0 \<le> year_of t \<and> year_of t \<le> 9999"

lemma Period_less_iff:
  assumes "common_era t" and "common_era t'"
  shows "Period t < Period t' \<longleftrightarrow> (year_of t, month_of t) < (year_of t', month_of t')"
  using assms month_of_range [of t] month_of_range [of t']
  by (simp add: Period_eq common_era_def format_date_less)

lemma Period_eq_iff:
  assumes "common_era t" and "common_era t'"
  shows "Period t = Period t' \<longleftrightarrow> (year_of t, month_of t) = (year_of t', month_of t')"
  using assms month_of_range [of t] month_of_range [of t']
  by (simp add: Period_eq common_era_def format_date_inject)

lemma Period_mono:
  assumes "common_era t" and "common_era t'" and "t \<le> t'"
  shows "Period t \<le> Period t'"
  using Period_less_iff [OF assms(2,1)] DateOf_mono [OF assms(3)] by (meson leD not_le_imp_less)

text \<open>Past the year 9999 the string order breaks: a year with five digits sorts by its first one.\<close>

lemma decimal_5_head: "10000 \<le> n \<Longrightarrow> n < 20000 \<Longrightarrow> \<exists>r. decimal n = digit 1 # r \<and> 3 \<le> length r"
proof -
  assume n: "10000 \<le> n" "n < 20000"
  then have "decimal n = decimal (n div 10) @ [digit (n mod 10)]" by (subst decimal.simps) simp
  moreover have "n div 10 div 1000 = 1" using n by simp
  ultimately show ?thesis using n decimal_4 [of "n div 10"] by simp
qed

lemma Period_head:
  assumes "0 \<le> year_of t" and "decimal (nat (year_of t)) = c # r" and "3 \<le> length r"
  shows "\<exists>r'. Period t = c # r'"
  using assms by (simp add: Period_eq format_date_def appendInt_def pad_def)

lemma Period_far_future:
  assumes "10000 \<le> year_of t" and "year_of t < 20000" and "2000 \<le> year_of t'" and "year_of t' \<le> 9999"
  shows "Period t < Period t'"
proof -
  have "10000 \<le> nat (year_of t)" "nat (year_of t) < 20000" using assms(1,2) by arith+
  then obtain r where r: "decimal (nat (year_of t)) = digit 1 # r" "3 \<le> length r"
    using decimal_5_head by blast
  obtain p where p: "Period t = digit 1 # p" using Period_head [OF _ r] assms(1) by auto
  define n where "n = nat (year_of t')"
  have n: "2000 \<le> n" "n < 10000" using assms(3,4) by (simp_all add: n_def)
  then have d: "decimal n = digit (n div 1000) # [digit (n div 100 mod 10), digit (n div 10 mod 10), digit (n mod 10)]"
    by (simp add: decimal_4)
  obtain q where q: "Period t' = digit (n div 1000) # q"
    using Period_head [of t', folded n_def, OF _ d] assms(3) by auto
  have "1 < n div 1000" "n div 1000 < 10" using n by simp_all
  then have "digit 1 < digit (n div 1000)" by (simp add: less_char_def)
  with p q show ?thesis by simp
qed

section \<open>Abstract specification\<close>

record ('a, 'r) entry =
  en_Envelope :: "('a, 'r) envelope"
  en_Seal :: string
  en_Source :: string
  en_System :: string

record ('a, 'r) spec =
  log :: "string \<rightharpoonup> ('a, 'r) entry"
  cps :: "string \<rightharpoonup> checkpoint"
  held :: "string set"
  evidence :: "VerifyEvent list"

definition entry_of :: "('a, 'r) access_record \<Rightarrow> ('a, 'r) entry" where
  "entry_of r = \<lparr>en_Envelope = Envelope r, en_Seal = RowSeal r, en_Source = SourceService r, en_System = System r\<rparr>"

lemma entry_of_simps [simp]:
  "en_Envelope (entry_of r) = Envelope r" "en_Seal (entry_of r) = RowSeal r"
  "entry_of (r\<lparr>RowID := i, Seq := q\<rparr>) = entry_of r"
  by (simp_all add: entry_of_def)

abbreviation entry_period :: "('a, 'r) entry \<Rightarrow> string" where
  "entry_period e \<equiv> Period (OccurredAt (en_Envelope e))"

definition entry_held :: "string set \<Rightarrow> ('a, 'r) entry \<Rightarrow> bool" where
  "entry_held H e \<longleftrightarrow> (\<exists>s \<in> set (DataSubjects (en_Envelope e)). s \<in> H)"

text \<open>An append stores a new event id once and never changes a stored entry.\<close>

definition spec_append :: "('a, 'r) access_record \<Rightarrow> ('a, 'r) spec \<Rightarrow> ('a, 'r) spec" where
  "spec_append r \<sigma> =
     (let k = EventID (Envelope r)
      in if k \<in> dom (log \<sigma>) then \<sigma> else \<sigma>\<lparr>log := (log \<sigma>)(k \<mapsto> entry_of r)\<rparr>)"

text \<open>The entries a subject read may return.\<close>

definition spec_matches :: "string \<Rightarrow> time \<Rightarrow> time \<Rightarrow> ('a, 'r) spec \<Rightarrow> ('a, 'r) entry set" where
  "spec_matches subject from to \<sigma> =
     {e \<in> ran (log \<sigma>). subject \<in> set (DataSubjects (en_Envelope e)) \<and>
        (IsZero from \<or> from \<le> OccurredAt (en_Envelope e)) \<and>
        (IsZero to \<or> OccurredAt (en_Envelope e) \<le> to)}"

definition period_keys :: "string \<Rightarrow> ('a, 'r) spec \<Rightarrow> string set" where
  "period_keys p \<sigma> = {k. \<exists>e. log \<sigma> k = Some e \<and> entry_period e = p}"

definition spec_seals :: "string \<Rightarrow> ('a, 'r) spec \<Rightarrow> string list" where
  "spec_seals p \<sigma> = map (\<lambda>k. en_Seal (the (log \<sigma> k))) (sorted_list_of_set (period_keys p \<sigma>))"

definition spec_pending :: "string \<Rightarrow> ('a, 'r) spec \<Rightarrow> string set" where
  "spec_pending before \<sigma> = {p. p < before \<and> p \<notin> dom (cps \<sigma>) \<and> period_keys p \<sigma> \<noteq> {}}"

definition spec_save :: "checkpoint \<Rightarrow> ('a, 'r) spec \<Rightarrow> ('a, 'r) spec" where
  "spec_save cp \<sigma> =
     (if CpPeriod cp \<in> dom (cps \<sigma>) then \<sigma> else \<sigma>\<lparr>cps := (cps \<sigma>)(CpPeriod cp \<mapsto> cp)\<rparr>)"

definition spec_hold :: "string \<Rightarrow> bool \<Rightarrow> ('a, 'r) spec \<Rightarrow> ('a, 'r) spec" where
  "spec_hold s h \<sigma> = \<sigma>\<lparr>held := (if h then insert s (held \<sigma>) else held \<sigma> - {s})\<rparr>"

definition survives :: "string \<Rightarrow> ('a, 'r) spec \<Rightarrow> ('a, 'r) entry \<Rightarrow> bool" where
  "survives cutoff \<sigma> e \<longleftrightarrow> cutoff \<le> entry_period e \<or> entry_held (held \<sigma>) e"

definition spec_purge :: "string \<Rightarrow> ('a, 'r) spec \<Rightarrow> ('a, 'r) spec" where
  "spec_purge cutoff \<sigma> =
     \<sigma>\<lparr>log := (\<lambda>k. case log \<sigma> k of None \<Rightarrow> None | Some e \<Rightarrow> if survives cutoff \<sigma> e then Some e else None)\<rparr>"

definition spec_record_evidence :: "VerifyEvent \<Rightarrow> ('a, 'r) spec \<Rightarrow> ('a, 'r) spec" where
  "spec_record_evidence ev \<sigma> = \<sigma>\<lparr>evidence := evidence \<sigma> @ [ev]\<rparr>"

definition spec_sweep :: "time \<Rightarrow> ('a, 'r) spec \<Rightarrow> ('a, 'r) spec" where
  "spec_sweep cutoff \<sigma> = \<sigma>\<lparr>evidence := filter (\<lambda>ev. cutoff \<le> TS ev) (evidence \<sigma>)\<rparr>"

text \<open>The keys of the log are the event ids of its entries, and it is finite.\<close>

definition spec_ok :: "('a, 'r) spec \<Rightarrow> bool" where
  "spec_ok \<sigma> \<longleftrightarrow> finite (dom (log \<sigma>)) \<and> (\<forall>k e. log \<sigma> k = Some e \<longrightarrow> EventID (en_Envelope e) = k) \<and>
     (\<forall>p cp. cps \<sigma> p = Some cp \<longrightarrow> CpPeriod cp = p)"

section \<open>The contract\<close>

text \<open>A read shows the envelope and the seal of an entry (the PostgreSQL store returns no more).
  \<open>subject_answer\<close> is what a subject read promises: only matching entries, in the order of their
  occurrence, none twice; at most \<open>limit\<close> of them when a limit is given, and all of them when
  the answer is shorter than the limit and than the documented cap of 10000 records, which a store
  may apply (the procedure behind PostgreSQL) or not (the in-memory store).\<close>

definition shown :: "('a, 'r) entry \<Rightarrow> ('a, 'r) envelope \<times> string" where
  "shown e = (en_Envelope e, en_Seal e)"

definition read_cap :: int where
  "read_cap = 10000"

definition subject_answer ::
    "string \<Rightarrow> time \<Rightarrow> time \<Rightarrow> int \<Rightarrow> ('a, 'r) spec \<Rightarrow> ('a, 'r) access_record list \<Rightarrow> bool" where
  "subject_answer subject from to limit \<sigma> rs \<longleftrightarrow>
     shown ` entry_of ` set rs \<subseteq> shown ` spec_matches subject from to \<sigma> \<and>
     distinct (map (\<lambda>r. EventID (Envelope r)) rs) \<and>
     sorted (map (\<lambda>r. OccurredAt (Envelope r)) rs) \<and>
     (0 < limit \<longrightarrow> int (length rs) \<le> limit \<and>
        (int (length rs) < min limit read_cap \<longrightarrow> shown ` entry_of ` set rs = shown ` spec_matches subject from to \<sigma>))"

lemma subject_answer_cap:
  "subject_answer subject from to (min limit read_cap) \<sigma> rs \<Longrightarrow> subject_answer subject from to limit \<sigma> rs"
  by (auto simp: subject_answer_def read_cap_def min_def split: if_splits)

definition purge_answer :: "string \<Rightarrow> ('a, 'r) spec \<Rightarrow> PurgeResult \<Rightarrow> bool" where
  "purge_answer cutoff \<sigma> res \<longleftrightarrow>
     Cutoff res = cutoff \<and>
     Purged res = int (card {k. \<exists>e. log \<sigma> k = Some e \<and> \<not> survives cutoff \<sigma> e}) \<and>
     RetainedUnderHold res =
       int (card {k. \<exists>e. log \<sigma> k = Some e \<and> entry_period e < cutoff \<and> entry_held (held \<sigma>) e})"

locale store_contract =
  fixes S :: "('s, 'a, 'r) Store" and inv :: "'s \<Rightarrow> bool" and abs :: "'s \<Rightarrow> ('a, 'r) spec"
  assumes abs_ok: "inv s \<Longrightarrow> spec_ok (abs s)"
    and append_law: "inv s \<Longrightarrow> Append S w r s = (res, s') \<Longrightarrow> inv s' \<and>
      (case res of Inl e \<Rightarrow> abs s' = abs s
       | Inr a \<Rightarrow> abs s' = spec_append r (abs s) \<and> ResEventID a = EventID (Envelope r) \<and>
           (Duplicate a \<longleftrightarrow> EventID (Envelope r) \<in> dom (log (abs s))))"
    and by_subject_law: "inv s \<Longrightarrow> BySubject S subj from to lim s = (ans, s') \<Longrightarrow> inv s' \<and> abs s' = abs s \<and>
      (\<forall>rs. ans = Inr rs \<longrightarrow> subject_answer subj from to lim (abs s) rs)"
    and seals_law: "inv s \<Longrightarrow> SealsForPeriod S p s = (sres, s') \<Longrightarrow> inv s' \<and> abs s' = abs s \<and>
      (\<forall>ss n. sres = Inr (ss, n) \<longrightarrow> ss = spec_seals p (abs s) \<and> n = int (length ss))"
    and pending_law: "inv s \<Longrightarrow> PendingCheckpointPeriods S before s = (pres, s') \<Longrightarrow> inv s' \<and> abs s' = abs s \<and>
      (\<forall>ps. pres = Inr ps \<longrightarrow> set ps = spec_pending before (abs s) \<and> distinct ps)"
    and save_law: "inv s \<Longrightarrow> SaveCheckpoint S w cp s = (cres, s') \<Longrightarrow> inv s' \<and>
      (case cres of Inl e \<Rightarrow> abs s' = abs s
       | Inr created \<Rightarrow> (\<exists>t. abs s' = spec_save (cp\<lparr>SealedAt := t\<rparr>) (abs s)) \<and>
           (created \<longleftrightarrow> CpPeriod cp \<notin> dom (cps (abs s))))"
    and load_law: "inv s \<Longrightarrow> LoadCheckpoint S p s = (lres, s') \<Longrightarrow> inv s' \<and> abs s' = abs s \<and>
      (\<forall>c. lres = Inr c \<longrightarrow> c = cps (abs s) p)"
    and hold_law: "inv s \<Longrightarrow> SetLegalHold S subj reason by_whom h s = (hres, s') \<Longrightarrow> inv s' \<and>
      (case hres of Inl e \<Rightarrow> abs s' = abs s | Inr u \<Rightarrow> abs s' = spec_hold subj h (abs s))"
    and purge_law: "inv s \<Longrightarrow> PurgeExpired S cutoff s = (gres, s') \<Longrightarrow> inv s' \<and>
      (case gres of Inl e \<Rightarrow> abs s' = abs s
       | Inr g \<Rightarrow> abs s' = spec_purge cutoff (abs s) \<and> purge_answer cutoff (abs s) g)"
    and evidence_law: "inv s \<Longrightarrow> AppendVerifyEvent S w ev s = (eres, s') \<Longrightarrow> inv s' \<and>
      (case eres of Inl e \<Rightarrow> abs s' = abs s | Inr i \<Rightarrow> abs s' = spec_record_evidence ev (abs s))"
    and sweep_law: "inv s \<Longrightarrow> SweepVerifyExpired S w days s = (vres, s') \<Longrightarrow> inv s' \<and>
      (case vres of Inl e \<Rightarrow> abs s' = abs s
       | Inr v \<Rightarrow> abs s' = spec_sweep (now w - days * day_ns) (abs s) \<and>
           SweepPurged v = int (length (evidence (abs s))) - int (length (evidence (abs s'))))"
    and ping_law: "inv s \<Longrightarrow> Ping S s = (ures, s') \<Longrightarrow> inv s' \<and> abs s' = abs s"

lemmas store_contract_laws = store_contract.append_law store_contract.by_subject_law store_contract.seals_law
  store_contract.pending_law store_contract.save_law store_contract.load_law store_contract.hold_law
  store_contract.purge_law store_contract.evidence_law store_contract.sweep_law store_contract.ping_law

text \<open>A store whose operations never fail while its invariant holds, as the in-memory one.\<close>

locale reliable_store = store_contract +
  assumes append_total: "inv s \<Longrightarrow> isl (fst (Append S w r s)) = False"
    and by_subject_total: "inv s \<Longrightarrow> isl (fst (BySubject S subj from to lim s)) = False"
    and seals_total: "inv s \<Longrightarrow> isl (fst (SealsForPeriod S p s)) = False"
    and pending_total: "inv s \<Longrightarrow> isl (fst (PendingCheckpointPeriods S before s)) = False"
    and save_total: "inv s \<Longrightarrow> isl (fst (SaveCheckpoint S w cp s)) = False"
    and load_total: "inv s \<Longrightarrow> isl (fst (LoadCheckpoint S p s)) = False"
    and hold_total: "inv s \<Longrightarrow> isl (fst (SetLegalHold S subj reason by_whom h s)) = False"
    and purge_total: "inv s \<Longrightarrow> isl (fst (PurgeExpired S cutoff s)) = False"
    and evidence_total: "inv s \<Longrightarrow> isl (fst (AppendVerifyEvent S w ev s)) = False"
    and sweep_total: "inv s \<Longrightarrow> isl (fst (SweepVerifyExpired S w days s)) = False"
    and ping_total: "inv s \<Longrightarrow> isl (fst (Ping S s)) = False"

subsection \<open>Facts about the specification\<close>

lemma spec_append_dom: "dom (log (spec_append r \<sigma>)) = insert (EventID (Envelope r)) (dom (log \<sigma>))"
  by (auto simp: spec_append_def Let_def)

lemma spec_append_keeps: "log \<sigma> k = Some e \<Longrightarrow> log (spec_append r \<sigma>) k = Some e"
  by (auto simp: spec_append_def Let_def)

lemma spec_append_idem: "spec_append r (spec_append r \<sigma>) = spec_append r \<sigma>"
  by (auto simp: spec_append_def Let_def)

lemma spec_ok_append: "spec_ok \<sigma> \<Longrightarrow> spec_ok (spec_append r \<sigma>)"
  by (auto simp: spec_ok_def spec_append_def Let_def entry_of_def)

lemma spec_ok_purge: "spec_ok \<sigma> \<Longrightarrow> spec_ok (spec_purge cutoff \<sigma>)"
  unfolding spec_ok_def spec_purge_def
  by (auto split: option.splits if_splits intro: finite_subset [of _ "dom (log \<sigma>)"])

lemma spec_ok_save: "spec_ok \<sigma> \<Longrightarrow> spec_ok (spec_save cp \<sigma>)"
  by (auto simp: spec_ok_def spec_save_def)

lemma spec_ok_hold: "spec_ok \<sigma> \<Longrightarrow> spec_ok (spec_hold s h \<sigma>)"
  by (simp add: spec_ok_def spec_hold_def)

lemma spec_ok_evidence: "spec_ok \<sigma> \<Longrightarrow> spec_ok (spec_record_evidence ev \<sigma>)" "spec_ok \<sigma> \<Longrightarrow> spec_ok (spec_sweep t \<sigma>)"
  by (simp_all add: spec_ok_def spec_record_evidence_def spec_sweep_def)

lemmas spec_ok_ops = spec_ok_append spec_ok_purge spec_ok_save spec_ok_hold spec_ok_evidence

lemma spec_purge_log: "log (spec_purge cutoff \<sigma>) k = Some e \<longleftrightarrow> log \<sigma> k = Some e \<and> survives cutoff \<sigma> e"
  by (auto simp: spec_purge_def split: option.splits)

lemma spec_purge_frame: "cps (spec_purge cutoff \<sigma>) = cps \<sigma>" "held (spec_purge cutoff \<sigma>) = held \<sigma>"
  "evidence (spec_purge cutoff \<sigma>) = evidence \<sigma>"
  by (simp_all add: spec_purge_def)

lemma survives_purge [simp]: "survives cutoff (spec_purge c \<sigma>) e = survives cutoff \<sigma> e"
  by (simp add: survives_def spec_purge_frame)

lemma spec_purge_idem: "spec_purge cutoff (spec_purge cutoff \<sigma>) = spec_purge cutoff \<sigma>"
proof -
  have "log (spec_purge cutoff (spec_purge cutoff \<sigma>)) = log (spec_purge cutoff \<sigma>)"
    by (rule ext) (metis not_Some_eq spec_purge_log survives_purge)
  then show ?thesis by (simp add: spec_purge_def)
qed

text \<open>A purge leaves the rows, and so the seals, of every period it does not cut off alone.\<close>

lemma spec_purge_period_keys: "cutoff \<le> p \<Longrightarrow> period_keys p (spec_purge cutoff \<sigma>) = period_keys p \<sigma>"
  by (auto simp: period_keys_def spec_purge_log survives_def)

lemma spec_purge_seals:
  assumes "cutoff \<le> p" and "spec_ok \<sigma>"
  shows "spec_seals p (spec_purge cutoff \<sigma>) = spec_seals p \<sigma>"
proof -
  have "finite (period_keys p \<sigma>)"
    using assms(2) by (auto simp: spec_ok_def period_keys_def intro: finite_subset [of _ "dom (log \<sigma>)"])
  moreover have "log (spec_purge cutoff \<sigma>) k = log \<sigma> k" if "k \<in> period_keys p \<sigma>" for k
    using that assms(1) by (auto simp: period_keys_def spec_purge_def survives_def)
  ultimately show ?thesis
    unfolding spec_seals_def spec_purge_period_keys [OF assms(1)] by (simp cong: map_cong)
qed

section \<open>Properties\<close>

lemma DateOf_samples [simp]: "DateOf (Date 2023 1 9) = (2023, 1, 9)" "DateOf (Date 2024 12 3) = (2024, 12, 3)"
  by (intro DateOf_Date; simp add: days_in_def days_before_month_def is_leap_def)+

lemma common_era_samples: "common_era (Date 2023 1 9)" "common_era (Date 2024 5 17)" "common_era (Date 2024 12 3)"
  by (simp_all add: common_era_def)

text \<open>The period of an instant is the first day of its UTC month, and for the years 0 to 9999
  periods compare as strings the way the months compare, so the string comparisons of the store
  and of the retention task are chronological.\<close>

theorem period_order:
  assumes "common_era t" and "common_era t'"
  shows "(Period t < Period t' \<longleftrightarrow> (year_of t, month_of t) < (year_of t', month_of t')) \<and>
    (Period t = Period t' \<longleftrightarrow> (year_of t, month_of t) = (year_of t', month_of t'))"
  using Period_less_iff [OF assms] Period_eq_iff [OF assms] by blast

theorem period_order_witness:
  "Period (Date 2023 1 9) < Period (Date 2024 5 17) \<and> Period (Date 2024 5 17) \<noteq> Period (Date 2024 12 3)"
  using period_order [OF common_era_samples(1,2)] period_order [OF common_era_samples(2,3)] by simp

end
