(* ===== verification/Events.thy ===== *)
theory Events
  imports Prelude
begin

text \<open>
  \<^verbatim>\<open>events/events.go\<close>: the service's own security events. The delivery of an event by
  go-sec-events is the argument \<open>deliver\<close> of the emitter (it may fail); what was delivered and
  what was logged as a failure is the \<open>telemetry\<close> state. The severity attribute that
  \<^verbatim>\<open>Emit\<close> adds to the attributes is the field \<open>se_Severity\<close>. A nil emitter is
  \<open>None\<close>.
\<close>

datatype severity = SeverityInfo | SeverityWarning | SeverityHigh
datatype outcome = OutcomeSuccess | OutcomeFailure | OutcomeDenied
datatype attr = AStr string | AInt int | ABool bool

text \<open>Severities are ordered, so that \<open>SeverityWarning \<le> sev\<close> reads "at least a warning".\<close>

fun severity_rank :: "severity \<Rightarrow> nat" where
  "severity_rank SeverityInfo = 0"
| "severity_rank SeverityWarning = 1"
| "severity_rank SeverityHigh = 2"

lemma severity_rank_inject: "severity_rank a = severity_rank b \<longleftrightarrow> a = b"
  by (cases a; cases b) simp_all

instantiation severity :: linorder
begin

definition less_eq_severity :: "severity \<Rightarrow> severity \<Rightarrow> bool" where
  "less_eq_severity a b \<longleftrightarrow> severity_rank a \<le> severity_rank b"

definition less_severity :: "severity \<Rightarrow> severity \<Rightarrow> bool" where
  "less_severity a b \<longleftrightarrow> severity_rank a < severity_rank b"

instance
  by standard (auto simp: less_eq_severity_def less_severity_def severity_rank_inject [symmetric])

end

text \<open>Where an event comes from: a request (its context is passed) or background work.\<close>

datatype origin = OnRequest | Background

record sec_event =
  se_Type :: string
  se_Severity :: severity
  se_Outcome :: outcome
  se_Attrs :: "(string \<times> attr) list"

record emitter =
  deliver :: "origin \<Rightarrow> sec_event \<Rightarrow> error option"

record telemetry =
  emitted :: "(origin \<times> sec_event) list"
  emit_failures :: "(origin \<times> string) list"

text \<open>\<^verbatim>\<open>New\<close> never returns a nil emitter; \<open>sink\<close> is the delivery through go-sec-events.\<close>

definition NewEmitter :: "(origin \<Rightarrow> sec_event \<Rightarrow> error option) \<Rightarrow> emitter option" where
  "NewEmitter sink = Some \<lparr>deliver = sink\<rparr>"

definition EventAuthzDenied :: string where "EventAuthzDenied = ''authz.denied''"
definition EventIntegrityMismatch :: string where "EventIntegrityMismatch = ''access_audit.integrity_mismatch''"
definition EventCheckpointWritten :: string where "EventCheckpointWritten = ''access_audit.checkpoint_written''"
definition EventRetentionPurge :: string where "EventRetentionPurge = ''access_audit.retention_purge''"
definition EventLegalHoldChanged :: string where "EventLegalHoldChanged = ''access_audit.legal_hold_changed''"

lemmas event_type_defs = EventAuthzDenied_def EventIntegrityMismatch_def EventCheckpointWritten_def
  EventRetentionPurge_def EventLegalHoldChanged_def

definition Emit ::
    "emitter option \<Rightarrow> origin \<Rightarrow> string \<Rightarrow> severity \<Rightarrow> outcome \<Rightarrow> (string \<times> attr) list \<Rightarrow> telemetry \<Rightarrow> telemetry" where
  "Emit em org eventType sev outcome attrs t =
     (case em of
        None \<Rightarrow> t
      | Some e \<Rightarrow>
          let ev = \<lparr>se_Type = eventType, se_Severity = sev, se_Outcome = outcome, se_Attrs = attrs\<rparr>
          in case deliver e org ev of
               None \<Rightarrow> t\<lparr>emitted := emitted t @ [(org, ev)]\<rparr>
             | Some err \<Rightarrow> t\<lparr>emit_failures := emit_failures t @ [(org, eventType)]\<rparr>)"

definition AuthzDenied :: "emitter option \<Rightarrow> string \<Rightarrow> string \<Rightarrow> string \<Rightarrow> telemetry \<Rightarrow> telemetry" where
  "AuthzDenied em requiredScope actorID path =
     Emit em OnRequest EventAuthzDenied SeverityWarning OutcomeDenied
       [(''required_scope'', AStr requiredScope), (''actor_id'', AStr actorID), (''path'', AStr path)]"

definition IntegrityMismatch :: "emitter option \<Rightarrow> string \<Rightarrow> string \<Rightarrow> telemetry \<Rightarrow> telemetry" where
  "IntegrityMismatch em scope detail =
     Emit em OnRequest EventIntegrityMismatch SeverityHigh OutcomeFailure
       [(''scope'', AStr scope), (''detail'', AStr detail)]"

definition CheckpointWritten :: "emitter option \<Rightarrow> string \<Rightarrow> int \<Rightarrow> telemetry \<Rightarrow> telemetry" where
  "CheckpointWritten em period n =
     Emit em Background EventCheckpointWritten SeverityInfo OutcomeSuccess
       [(''period'', AStr period), (''count'', AInt n)]"

definition RetentionPurge :: "emitter option \<Rightarrow> string \<Rightarrow> int \<Rightarrow> int \<Rightarrow> telemetry \<Rightarrow> telemetry" where
  "RetentionPurge em cutoff purged retainedUnderHold =
     (let sev = (if 0 < retainedUnderHold then SeverityWarning else SeverityInfo)
      in Emit em Background EventRetentionPurge sev OutcomeSuccess
           [(''cutoff'', AStr cutoff), (''purged'', AInt purged), (''retained_under_hold'', AInt retainedUnderHold)])"

definition LegalHoldChanged :: "emitter option \<Rightarrow> string \<Rightarrow> bool \<Rightarrow> string \<Rightarrow> telemetry \<Rightarrow> telemetry" where
  "LegalHoldChanged em subject hold actorID =
     Emit em OnRequest EventLegalHoldChanged SeverityWarning OutcomeSuccess
       [(''subject'', AStr subject), (''hold'', ABool hold), (''actor_id'', AStr actorID)]"

section \<open>Delivery\<close>

text \<open>An emission adds exactly one delivered event or one reported failure, and never drops an
  earlier one.\<close>

definition tel_extends :: "telemetry \<Rightarrow> telemetry \<Rightarrow> bool" where
  "tel_extends t t' \<longleftrightarrow> (\<exists>es fs. emitted t' = emitted t @ es \<and> emit_failures t' = emit_failures t @ fs)"

lemma tel_extends_refl [simp, intro]: "tel_extends t t"
  by (simp add: tel_extends_def)

lemma tel_extends_trans: "tel_extends t t' \<Longrightarrow> tel_extends t' t'' \<Longrightarrow> tel_extends t t''"
  by (fastforce simp: tel_extends_def)

lemma Emit_extends [intro]: "tel_extends t (Emit em org ty sev oc attrs t)"
  by (auto simp: tel_extends_def Emit_def Let_def split: option.splits)

lemma Emit_count:
  "length (emitted (Emit (Some e) org ty sev oc attrs t)) + length (emit_failures (Emit (Some e) org ty sev oc attrs t))
     = Suc (length (emitted t) + length (emit_failures t))"
  by (simp add: Emit_def Let_def split: option.splits)

lemma event_extends [intro]:
  "tel_extends t (AuthzDenied em a b c t)" "tel_extends t (IntegrityMismatch em a b t)"
  "tel_extends t (CheckpointWritten em p n t)" "tel_extends t (RetentionPurge em p k l t)"
  "tel_extends t (LegalHoldChanged em s h a t)"
  unfolding AuthzDenied_def IntegrityMismatch_def CheckpointWritten_def RetentionPurge_def
    LegalHoldChanged_def Let_def by (rule Emit_extends)+

lemma set_emitted_Emit:
  "set (emitted (Emit em org ty sev oc attrs t)) \<subseteq>
     insert (org, \<lparr>se_Type = ty, se_Severity = sev, se_Outcome = oc, se_Attrs = attrs\<rparr>) (set (emitted t))"
  by (auto simp: Emit_def Let_def split: option.splits)

end
