(* ===== verification/Request.thy ===== *)
theory Request
  imports Seal
begin

text \<open>
  \<^verbatim>\<open>routes/request/request.go\<close>: the validation of an access record and the sanitising of its
  attributes. The category constant of the broker package is the argument \<open>gdpr\<close>, the Unicode
  lower-case table the argument \<open>lower\<close>. The lemmas characterise what is accepted, and show
  that sanitising removes every forbidden top-level key, bounds top-level strings, is idempotent and
  keeps an envelope sealable.
\<close>

section \<open>Validation\<close>

definition knownBases :: "string list" where
  "knownBases = [''contract'', ''legal_obligation'', ''consent'', ''legitimate_interest'', ''public_task'',
     ''vital_interest'']"

fun hasCategory :: "string list \<Rightarrow> string \<Rightarrow> bool" where
  "hasCategory [] want = False"
| "hasCategory (c # cats) want = (if c = want then True else hasCategory cats want)"

text \<open>The loop of \<^verbatim>\<open>looksLikePersonalCode\<close> over the runes, with its two counters.\<close>

fun code_scan :: "nat list \<Rightarrow> nat \<Rightarrow> nat \<Rightarrow> bool" where
  "code_scan [] digits dashes = (digits = 11 \<and> dashes \<le> 1)"
| "code_scan (c # cs) digits dashes =
     (if 48 \<le> c \<and> c \<le> 57 then code_scan cs (digits + 1) dashes
      else if c = 45 then code_scan cs digits (dashes + 1)
      else False)"

definition looksLikePersonalCode :: "string \<Rightarrow> bool" where
  "looksLikePersonalCode s = code_scan (runes s) 0 0"

definition validSubjectRef :: "string \<Rightarrow> bool" where
  "validSubjectRef s =
     (if s = [] \<or> 128 < length s then False
      else if ContainsAny s (''@ '' @ [CHR 0x09, CHR 0x0D, CHR 0x0A]) then False
      else \<not> looksLikePersonalCode s)"

text \<open>\<^verbatim>\<open>Validate\<close>; \<open>None\<close> is the nil error.\<close>

fun subjects_error :: "string list \<Rightarrow> error option" where
  "subjects_error [] = None"
| "subjects_error (s # ss) =
     (if \<not> validSubjectRef s then Some (ParamInvalidError ''data_subjects'' ''pseudonymous_ref'')
      else subjects_error ss)"

definition Validate :: "string \<Rightarrow> ('a, 'r) envelope \<Rightarrow> error option" where
  "Validate gdpr e =
     (if EventID e = [] then Some (ParamRequiredError ''event_id'')
      else if IsZero (OccurredAt e) then Some (ParamRequiredError ''occurred_at'')
      else if EventType e = [] then Some (ParamRequiredError ''event_type'')
      else if Outcome e = [] then Some (ParamRequiredError ''outcome'')
      else if \<not> hasCategory (Categories e) gdpr
        then Some (BadRequestError ''category must include gdpr_access'')
      else if length (DataSubjects e) = 0 then Some (ParamRequiredError ''data_subjects'')
      else case subjects_error (DataSubjects e) of
             Some err \<Rightarrow> Some err
           | None \<Rightarrow>
               if LawfulBasis e \<noteq> [] \<and> LawfulBasis e \<notin> set knownBases
               then Some (ParamInvalidError ''lawful_basis'' ''oneof'')
               else None)"

section \<open>Sanitising\<close>

definition maxAttrValueLen :: nat where "maxAttrValueLen = 256"

definition forbiddenAttrKeys :: "string list" where
  "forbiddenAttrKeys = [''document_bytes'', ''content_bytes'', ''file_bytes'', ''free_text'',
     ''note'', ''comment'', ''body'', ''payload'', ''email'', ''phone'']"

definition forbidden_key :: "(nat \<Rightarrow> nat) \<Rightarrow> string \<Rightarrow> bool" where
  "forbidden_key lower k = (let lk = ToLower lower k in list_ex (Contains lk) forbiddenAttrKeys)"

fun strip_keys :: "(nat \<Rightarrow> nat) \<Rightarrow> (string \<times> json) list \<Rightarrow> (string \<times> json) list" where
  "strip_keys lower [] = []"
| "strip_keys lower ((k, v) # kvs) =
     (if forbidden_key lower k then strip_keys lower kvs else (k, v) # strip_keys lower kvs)"

fun truncate_value :: "json \<Rightarrow> json" where
  "truncate_value (JStr s) =
     (let rs = runes s in if maxAttrValueLen < length rs then JStr (string_of_runes (take maxAttrValueLen rs)) else JStr s)"
| "truncate_value v = v"

definition Sanitize :: "(nat \<Rightarrow> nat) \<Rightarrow> ('a, 'r) envelope \<Rightarrow> ('a, 'r) envelope" where
  "Sanitize lower e =
     (if Attributes e = [] then e
      else e\<lparr>Attributes := map (\<lambda>(k, v). (k, truncate_value v)) (strip_keys lower (Attributes e))\<rparr>)"

section \<open>What is accepted\<close>

lemma hasCategory_iff [simp]: "hasCategory cats want \<longleftrightarrow> want \<in> set cats"
  by (induction cats) auto

lemma subjects_error_None: "subjects_error ss = None \<longleftrightarrow> list_all validSubjectRef ss"
  by (induction ss) auto

lemma Validate_None:
  "Validate gdpr e = None \<longleftrightarrow>
     EventID e \<noteq> [] \<and> \<not> IsZero (OccurredAt e) \<and> EventType e \<noteq> [] \<and> Outcome e \<noteq> [] \<and>
     gdpr \<in> set (Categories e) \<and> DataSubjects e \<noteq> [] \<and> list_all validSubjectRef (DataSubjects e) \<and>
     (LawfulBasis e = [] \<or> LawfulBasis e \<in> set knownBases)"
  by (auto simp: Validate_def subjects_error_None [symmetric] split: option.splits)

lemma code_scan_iff:
  "code_scan cs digits dashes \<longleftrightarrow>
     (\<forall>c \<in> set cs. 48 \<le> c \<and> c \<le> 57 \<or> c = 45) \<and>
     digits + length (filter (\<lambda>c. c \<noteq> 45) cs) = 11 \<and> dashes + length (filter (\<lambda>c. c = 45) cs) \<le> 1"
  by (induction cs arbitrary: digits dashes) auto

lemma ContainsAny_ascii:
  assumes "\<forall>c \<in> set chars. (of_char c :: nat) < 128"
  shows "ContainsAny s chars \<longleftrightarrow> set s \<inter> set chars \<noteq> {}"
proof -
  have r: "set (runes chars) = of_char ` set chars" using assms by (simp add: runes_def tokens_ascii)
  have "ContainsAny s chars \<longleftrightarrow> (\<exists>c \<in> set chars. of_char c \<in> set (runes s))"
    unfolding ContainsAny_def list_ex_iff r by blast
  also have "\<dots> \<longleftrightarrow> (\<exists>c \<in> set chars. c \<in> set s)" using assms ascii_in_runes [of "of_char _" s] by (intro bex_cong) simp_all
  finally show ?thesis by auto
qed

text \<open>An 11-digit personal code, with at most one dash anywhere.\<close>

definition personal_code :: "string \<Rightarrow> bool" where
  "personal_code s \<longleftrightarrow>
     list_all (\<lambda>c. is_digit c \<or> c = CHR ''-'') s \<and> length (filter is_digit s) = 11 \<and>
     length (filter (\<lambda>c. c = CHR ''-'') s) \<le> 1"

lemma of_char_dash: "of_char c = (45 :: nat) \<longleftrightarrow> c = CHR ''-''"
proof -
  have "of_char (CHR ''-'') = (45 :: nat)" by simp
  then show ?thesis by (metis of_char_eq_iff)
qed

lemma looksLikePersonalCode_iff: "looksLikePersonalCode s \<longleftrightarrow> personal_code s"
proof (cases "\<forall>c \<in> set s. (of_char c :: nat) < 128")
  case True
  then have r: "runes s = map of_char s" by (simp add: runes_def tokens_ascii)
  have "filter (\<lambda>c. of_char c \<noteq> (45 :: nat)) s = filter is_digit s" if "\<forall>c \<in> set s. is_digit c \<or> c = CHR ''-''"
    using that by (intro filter_cong) (auto simp: is_digit_def of_char_dash)
  then show ?thesis
    unfolding looksLikePersonalCode_def code_scan_iff r personal_code_def
    by (auto simp: filter_map o_def list_all_iff is_digit_def of_char_dash)
next
  case False
  then obtain c where c: "c \<in> set s" "\<not> (of_char c :: nat) < 128" by blast
  then have "\<not> personal_code s" by (force simp: personal_code_def list_all_iff is_digit_def)
  moreover obtain r where "r \<in> set (runes s)" "\<not> r < 128" using runes_below_128 c by blast
  ultimately show ?thesis unfolding looksLikePersonalCode_def code_scan_iff by force
qed

text \<open>The references that are accepted, by their bytes.\<close>

lemma validSubjectRef_iff:
  "validSubjectRef s \<longleftrightarrow> 1 \<le> length s \<and> length s \<le> 128 \<and>
     set s \<inter> {CHR ''@'', CHR '' '', CHR 0x09, CHR 0x0D, CHR 0x0A} = {} \<and> \<not> personal_code s"
proof -
  have "ContainsAny s (''@ '' @ [CHR 0x09, CHR 0x0D, CHR 0x0A]) \<longleftrightarrow>
      set s \<inter> {CHR ''@'', CHR '' '', CHR 0x09, CHR 0x0D, CHR 0x0A} \<noteq> {}"
    by (subst ContainsAny_ascii) simp_all
  then show ?thesis by (auto simp: validSubjectRef_def looksLikePersonalCode_iff Suc_le_eq)
qed

section \<open>What sanitising leaves\<close>

lemma strip_keys_filter: "strip_keys lower kvs = filter (\<lambda>(k, v). \<not> forbidden_key lower k) kvs"
  by (induction kvs) auto

lemma Attributes_Sanitize:
  "Attributes (Sanitize lower e) =
     map (\<lambda>(k, v). (k, truncate_value v)) (filter (\<lambda>(k, v). \<not> forbidden_key lower k) (Attributes e))"
  by (simp add: Sanitize_def strip_keys_filter)

lemma runes_truncate:
  "runes (string_of_runes (take n (runes s))) = take n (runes s)"
  using runes_scalar by (intro runes_string_of_runes) (auto dest: in_set_takeD)

lemma truncate_value_bound: "truncate_value v = JStr s \<Longrightarrow> length (runes s) \<le> maxAttrValueLen"
  by (cases v) (auto simp: Let_def runes_truncate split: if_splits)

lemma truncate_value_idem [simp]: "truncate_value (truncate_value v) = truncate_value v"
  by (cases v) (auto simp: Let_def runes_truncate)

lemma Sanitize_frame:
  "EventID (Sanitize lower e) = EventID e" "OccurredAt (Sanitize lower e) = OccurredAt e"
  "Categories (Sanitize lower e) = Categories e" "EventType (Sanitize lower e) = EventType e"
  "Actor (Sanitize lower e) = Actor e" "DataSubjects (Sanitize lower e) = DataSubjects e"
  "Resource (Sanitize lower e) = Resource e" "Operation (Sanitize lower e) = Operation e"
  "LawfulBasis (Sanitize lower e) = LawfulBasis e" "Purpose (Sanitize lower e) = Purpose e"
  "Outcome (Sanitize lower e) = Outcome e" "IP (Sanitize lower e) = IP e" "Device (Sanitize lower e) = Device e"
  by (simp_all add: Sanitize_def)

lemma Sanitize_idem_lemma: "Sanitize lower (Sanitize lower e) = Sanitize lower e"
proof -
  have "Attributes (Sanitize lower (Sanitize lower e)) = Attributes (Sanitize lower e)"
    unfolding Attributes_Sanitize [of lower "Sanitize lower e"] unfolding Attributes_Sanitize
    by (simp add: filter_map o_def split_beta' cong: map_cong filter_cong)
  then show ?thesis
    by (cases e) (simp add: Sanitize_def split: if_splits)
qed

lemma truncate_value_ok: "json_ok v \<Longrightarrow> json_ok (truncate_value v)"
  using runes_scalar
  by (cases v) (auto simp: Let_def intro!: valid_string_of_runes dest: in_set_takeD)

lemma Sanitize_envelope_ok:
  assumes "envelope_ok c e"
  shows "envelope_ok c (Sanitize lower e)"
proof -
  have "json_ok (JObj (Attributes (Sanitize lower e)))"
    using assms by (auto simp: Attributes_Sanitize envelope_ok_def truncate_value_ok)
  then show ?thesis
    using assms unfolding envelope_ok_def Sanitize_frame by blast
qed

lemma Validate_Sanitize [simp]: "Validate gdpr (Sanitize lower e) = Validate gdpr e"
  by (simp add: Validate_def Sanitize_frame)

section \<open>Properties\<close>

lemma sample_refs: "validSubjectRef ''usr_1''" "validSubjectRef ''usr_2''"
  by code_simp+

lemma sample_valid: "Validate ''gdpr_access'' sample_envelope = None"
proof -
  have "Date 2024 5 17 \<noteq> 0"
    by (simp add: Date_def days_of_civil_def days_before_year_def days_before_month_def is_leap_def day_ns_def second_def)
  then show ?thesis
    unfolding Validate_None by (simp add: sample_envelope_def sample_refs IsZero_def knownBases_def)
qed

text \<open>C31: which records are accepted, in the terms of the bytes of the request: those with an event id,
  a non-zero time, a type and an outcome, tagged as a GDPR access, that name at least one data
  subject, whose every subject reference has 1 to 128 bytes, none of them an at sign, space, tab,
  carriage return or line feed, and is not 11 digits with at most one dash, and whose lawful basis is
  absent or one of the six of Art. 6.\<close>

theorem validate_accepts_iff:
  "Validate gdpr e = None \<longleftrightarrow>
     EventID e \<noteq> [] \<and> OccurredAt e \<noteq> 0 \<and> EventType e \<noteq> [] \<and> Outcome e \<noteq> [] \<and>
     gdpr \<in> set (Categories e) \<and> DataSubjects e \<noteq> [] \<and>
     (\<forall>s \<in> set (DataSubjects e).
        1 \<le> length s \<and> length s \<le> 128 \<and> set s \<inter> {CHR ''@'', CHR '' '', CHR 0x09, CHR 0x0D, CHR 0x0A} = {} \<and>
        \<not> (list_all (\<lambda>c. is_digit c \<or> c = CHR ''-'') s \<and> length (filter is_digit s) = 11 \<and>
            length (filter (\<lambda>c. c = CHR ''-'') s) \<le> 1)) \<and>
     LawfulBasis e \<in> {[], ''contract'', ''legal_obligation'', ''consent'', ''legitimate_interest'', ''public_task'',
       ''vital_interest''}"
  unfolding Validate_None IsZero_def list_all_iff validSubjectRef_iff personal_code_def
  by (auto simp: knownBases_def)

theorem validate_accepts_iff_witness:
  "Validate ''gdpr_access'' (sample_envelope\<lparr>DataSubjects := [''usr_1'', ''010190-12345'']\<rparr>) \<noteq> None \<and>
   Validate ''gdpr_access'' (sample_envelope\<lparr>LawfulBasis := ''curiosity''\<rparr>) \<noteq> None"
  unfolding validate_accepts_iff by (simp add: is_digit_def)



lemma runes_ascii: "ascii s \<Longrightarrow> runes s = map of_char s"
  by (simp add: runes_def tokens_ascii ascii_def)

lemma ToLower_lower:
  assumes "ascii s" and "list_all (\<lambda>c. \<not> (65 \<le> (of_char c :: nat) \<and> (of_char c :: nat) \<le> 90)) s"
  shows "ToLower lower s = s"
proof -
  have "map (lower_rune lower) (runes s) = runes s"
    using assms by (auto simp: runes_ascii lower_rune_def list_all_iff ascii_def intro!: map_idI)
  moreover have "valid_utf8 s" using assms(1) by (intro valid_ascii) (simp add: ascii_def)
  ultimately show ?thesis by (simp add: ToLower_def string_of_runes_runes)
qed

lemma sample_keys: "\<not> forbidden_key lower ''channel''" "\<not> forbidden_key lower ''ctx''" "forbidden_key lower ''email''"
  by (simp_all add: forbidden_key_def ToLower_lower forbiddenAttrKeys_def)

lemma set_forbiddenAttrKeys: "set forbiddenAttrKeys = {''document_bytes'', ''content_bytes'', ''file_bytes'',
    ''free_text'', ''note'', ''comment'', ''body'', ''payload'', ''email'', ''phone''}"
  unfolding forbiddenAttrKeys_def by (simp only: set_simps)

lemma forbidden_key_iff: "forbidden_key lower k \<longleftrightarrow> (\<exists>f u w. ToLower lower k = u @ f @ w \<and> f \<in> set forbiddenAttrKeys)"
  by (auto simp: forbidden_key_def Let_def list_ex_iff Contains_iff simp del: set_simps)

text \<open>C26: sanitising keeps, in their order, exactly the attributes whose lower-cased key contains none of
  the ten forbidden fragments. A string value of more than 256 runes becomes its first 256 runes;
  every shorter string and every number, boolean, null, array and object is kept as it is. The rest
  of the envelope stays, and doing it twice is doing it once.\<close>

theorem sanitize_effect:
  "Attributes (Sanitize lower e) =
     map (\<lambda>(k, v). (k, case v of JStr s \<Rightarrow> (if 256 < length (runes s) then JStr (string_of_runes (take 256 (runes s))) else JStr s)
         | JNull \<Rightarrow> JNull | JBool b \<Rightarrow> JBool b | JNum n \<Rightarrow> JNum n | JArr xs \<Rightarrow> JArr xs | JObj kvs \<Rightarrow> JObj kvs))
       (filter (\<lambda>(k, v). \<not> (\<exists>f u w. ToLower lower k = u @ f @ w \<and> f \<in> {''document_bytes'', ''content_bytes'', ''file_bytes'',
            ''free_text'', ''note'', ''comment'', ''body'', ''payload'', ''email'', ''phone''})) (Attributes e)) \<and>
   Sanitize lower e = e\<lparr>Attributes := Attributes (Sanitize lower e)\<rparr> \<and>
   (\<forall>k s. (k, JStr s) \<in> set (Attributes (Sanitize lower e)) \<longrightarrow> length (runes s) \<le> 256) \<and>
   Sanitize lower (Sanitize lower e) = Sanitize lower e"
proof -
  note fk = forbidden_key_iff [unfolded set_forbiddenAttrKeys]
  have tv: "truncate_value v = (case v of
      JStr s \<Rightarrow> (if 256 < length (runes s) then JStr (string_of_runes (take 256 (runes s))) else JStr s)
    | JNull \<Rightarrow> JNull | JBool b \<Rightarrow> JBool b | JNum n \<Rightarrow> JNum n | JArr xs \<Rightarrow> JArr xs | JObj kvs \<Rightarrow> JObj kvs)" for v
    by (cases v) (simp_all add: maxAttrValueLen_def Let_def)
  have "length (runes s) \<le> 256" if "(k, JStr s) \<in> set (Attributes (Sanitize lower e))" for k s
    using that truncate_value_bound by (fastforce simp: Attributes_Sanitize maxAttrValueLen_def)
  moreover have "Sanitize lower e = e\<lparr>Attributes := Attributes (Sanitize lower e)\<rparr>" by (simp add: Sanitize_def)
  ultimately show ?thesis using Sanitize_idem_lemma unfolding Attributes_Sanitize fk [symmetric] tv [symmetric] by blast
qed

theorem sanitize_effect_witness:
  "Attributes (Sanitize (\<lambda>c. c)
     (sample_envelope\<lparr>Attributes := [(''email'', JStr ''x''), (''channel'', JNum 7), (''ctx'', JBool True)]\<rparr>)) =
   [(''channel'', JNum 7), (''ctx'', JBool True)]"
proof -
  let ?e = "sample_envelope\<lparr>Attributes := [(''email'', JStr ''x''), (''channel'', JNum 7), (''ctx'', JBool True)]\<rparr>"
  note fk = forbidden_key_iff [of "\<lambda>c. c", unfolded set_forbiddenAttrKeys, symmetric]
  show ?thesis using conjunct1 [OF sanitize_effect [of "\<lambda>c. c" ?e]] unfolding fk by (simp add: sample_keys)
qed



end
