(* ===== verification/Web.thy ===== *)
theory Web
  imports Store Events Request
begin

text \<open>
  What a handler sees of a request and what it answers. A request context carries the values the
  web framework gives for it (the authenticated user, path and query parameters, headers, and the
  body decoded into each request type, before validation); \<open>framework\<close> collects the constants
  and functions of code outside the repository that the service calls. The response types are those
  of \<^verbatim>\<open>routes/response/response.go\<close>. The mutable state of a running service is
  \<open>'s sys\<close>: the store's state, the security events and the log lines written.
\<close>

section \<open>Requests\<close>

record user =
  user_ID :: string
  HasScopeLevel :: "string \<Rightarrow> string \<Rightarrow> bool"

record LegalHold =
  Subject :: string
  Reason :: string

record verifyEventRequest =
  req_TS :: string
  req_IP :: string
  req_UserAgent :: string
  req_SizeBytes :: int
  req_SHA256 :: string
  req_Verdict :: string
  req_CorrelationID :: string
  req_SessionID :: string

record ('a, 'r) ctx =
  User :: user
  Path :: string
  Header :: "string \<Rightarrow> string"
  Params :: "string \<Rightarrow> string"
  QueryString :: "string \<Rightarrow> string option"
  QueryInt :: "string \<Rightarrow> error + int option"
  BodyAccessRecord :: "error + ('a, 'r) envelope"
  BodyVerifyEvent :: "error + verifyEventRequest"
  BodyLegalHold :: "error + LegalHold"

record ('a, 'r) framework =
  fw_codec :: "('a, 'r) codec"
  CategoryGDPRAccess :: string
  lower_table :: "nat \<Rightarrow> nat"
  ValidateStruct :: "LegalHold \<Rightarrow> error option"

text \<open>\<^verbatim>\<open>ctx.Body.JSON\<close> decodes the body and then calls the request type's
  \<^verbatim>\<open>Validate\<close>; an evidence event has none.\<close>

definition Body_AccessRecord :: "('a, 'r) framework \<Rightarrow> ('a, 'r) ctx \<Rightarrow> error + ('a, 'r) envelope" where
  "Body_AccessRecord fw ctx =
     (case BodyAccessRecord ctx of
        Inl err \<Rightarrow> Inl err
      | Inr e \<Rightarrow> (case Validate (CategoryGDPRAccess fw) e of Some err \<Rightarrow> Inl err | None \<Rightarrow> Inr e))"

text \<open>\<open>ValidateStruct\<close> is the validator package, which reads the tags of \<open>LegalHold\<close>
  (\<^verbatim>\<open>required\<close> on the subject, \<^verbatim>\<open>omitempty,max=256\<close> on the reason).\<close>

definition LegalHold_Validate :: "('a, 'r) framework \<Rightarrow> LegalHold \<Rightarrow> error option" where
  "LegalHold_Validate fw r = ValidateStruct fw r"

definition Body_LegalHold :: "('a, 'r) framework \<Rightarrow> ('a, 'r) ctx \<Rightarrow> error + LegalHold" where
  "Body_LegalHold fw ctx =
     (case BodyLegalHold ctx of
        Inl err \<Rightarrow> Inl err
      | Inr r \<Rightarrow> (case LegalHold_Validate fw r of Some err \<Rightarrow> Inl err | None \<Rightarrow> Inr r))"

section \<open>Responses\<close>

record Recorded =
  rp_RecordID :: string
  rp_EventID :: string
  rp_Duplicate :: bool

record ('a, 'r) SubjectRecord =
  sr_Envelope :: "('a, 'r) envelope"
  sr_Integrity :: string

record ('a, 'r) SubjectRecords =
  srs_Subject :: string
  srs_Count :: int
  srs_Records :: "('a, 'r) SubjectRecord list"

record VerifyResponse =
  v_Scope :: string
  v_Target :: string
  v_Checked :: int
  v_OK :: bool
  v_Mismatches :: "string list"

record LegalHoldResponse =
  lh_Subject :: string
  lh_Hold :: bool

record PurgeResponse =
  pr_Cutoff :: string
  pr_Purged :: int
  pr_RetainedUnderHold :: int

datatype ('a, 'r) payload =
    RecordedBody Recorded
  | SubjectRecordsBody "('a, 'r) SubjectRecords"
  | VerifyBody VerifyResponse
  | LegalHoldBody LegalHoldResponse
  | PurgeBody PurgeResponse
  | EventIdBody string
  | TextBody string

text \<open>A reply with its status, an error handed to the framework's \<^verbatim>\<open>ctx.Error\<close>, or a
  panic.\<close>

datatype ('a, 'r) http = Reply int "('a, 'r) payload" | Failed error | Panicked string

definition StatusOK :: int where "StatusOK = 200"
definition StatusCreated :: int where "StatusCreated = 201"
definition StatusUnauthorized :: int where "StatusUnauthorized = 401"
definition StatusServiceUnavailable :: int where "StatusServiceUnavailable = 503"

section \<open>The state of a running service\<close>

text \<open>A log line carries its message, without the structured fields. The em dash of messages and
  event details is in UTF-8.\<close>

definition em_dash :: string where "em_dash = [CHR 0xE2, CHR 0x80, CHR 0x94]"

datatype log_entry = LogError string | LogWarn string | LogInfo string

record 's sys =
  st :: 's
  tel :: telemetry
  logs :: "log_entry list"

text \<open>One store call: the result, and the system with the store's new state.\<close>

definition on_store :: "('s \<Rightarrow> 'x \<times> 's) \<Rightarrow> 's sys \<Rightarrow> 'x \<times> 's sys" where
  "on_store f y = (case f (st y) of (x, s) \<Rightarrow> (x, y\<lparr>st := s\<rparr>))"

definition on_tel :: "(telemetry \<Rightarrow> telemetry) \<Rightarrow> 's sys \<Rightarrow> 's sys" where
  "on_tel f y = y\<lparr>tel := f (tel y)\<rparr>"

lemma on_store_cases:
  assumes "on_store f y = (x, y')"
  obtains s where "f (st y) = (x, s)" "y' = y\<lparr>st := s\<rparr>"
  using assms by (auto simp: on_store_def split: prod.splits)

lemma on_tel_simps [simp]: "st (on_tel f y) = st y" "tel (on_tel f y) = f (tel y)" "logs (on_tel f y) = logs y"
  by (simp_all add: on_tel_def)

lemma Body_AccessRecord_ok:
  "Body_AccessRecord fw ctx = Inr e \<longleftrightarrow>
     BodyAccessRecord ctx = Inr e \<and> Validate (CategoryGDPRAccess fw) e = None"
  by (auto simp: Body_AccessRecord_def split: sum.splits option.splits)

end
