(* ===== verification/Memory.thy ===== *)
theory Memory
  imports Store
begin

text \<open>
  \<^verbatim>\<open>store/memory.go\<close> and the in-memory half of \<^verbatim>\<open>store/verify.go\<close>. Every
  operation runs under the store's mutex, so it is one state transition. Records are shared by
  pointer between the slice and the event-id map but never mutated after the append, so both hold
  values here. \<open>mem_inv\<close> is the store's invariant; the interpretation \<open>mem\<close> shows that
  the operations refine the abstract specification of \<open>Store\<close>.
\<close>

section \<open>State\<close>

record ('a, 'r) Memory =
  byEventID :: "string \<rightharpoonup> ('a, 'r) access_record"
  records :: "('a, 'r) access_record list"
  checkpoints :: "string \<rightharpoonup> checkpoint"
  holds :: "string \<rightharpoonup> bool"
  verifyEvents :: "VerifyEvent list"

definition NewMemory :: "('a, 'r) Memory" where
  "NewMemory = \<lparr>byEventID = Map.empty, records = [], checkpoints = Map.empty, holds = Map.empty,
     verifyEvents = []\<rparr>"

abbreviation event_id :: "('a, 'r) access_record \<Rightarrow> string" where
  "event_id r \<equiv> EventID (Envelope r)"

abbreviation row_period :: "('a, 'r) access_record \<Rightarrow> string" where
  "row_period r \<equiv> Period (OccurredAt (Envelope r))"

section \<open>Operations\<close>

definition mem_Append ::
    "world \<Rightarrow> ('a, 'r) access_record \<Rightarrow> ('a, 'r) Memory \<Rightarrow> (error + AppendResult) \<times> ('a, 'r) Memory" where
  [store_defs]: "mem_Append w rec m =
     (let eid = event_id rec
      in case byEventID m eid of
           Some existing \<Rightarrow> (Inr \<lparr>RecordID = RowID existing, ResEventID = eid, Duplicate = True\<rparr>, m)
         | None \<Rightarrow>
             let cp = rec\<lparr>RowID := ulid w, Seq := int (length (records m) + 1)\<rparr>
             in (Inr \<lparr>RecordID = RowID cp, ResEventID = eid, Duplicate = False\<rparr>,
                 m\<lparr>records := records m @ [cp], byEventID := (byEventID m)(eid \<mapsto> cp)\<rparr>))"

fun containsString :: "string list \<Rightarrow> string \<Rightarrow> bool" where
  "containsString [] s = False"
| "containsString (v # list) s = (if v = s then True else containsString list s)"

text \<open>The scan of \<^verbatim>\<open>BySubject\<close>, with its three \<^verbatim>\<open>continue\<close> guards.\<close>

fun subject_scan ::
    "string \<Rightarrow> time \<Rightarrow> time \<Rightarrow> ('a, 'r) access_record list \<Rightarrow> ('a, 'r) access_record list" where
  "subject_scan subject from to [] = []"
| "subject_scan subject from to (r # rs) =
     (if \<not> containsString (DataSubjects (Envelope r)) subject then subject_scan subject from to rs
      else if \<not> IsZero from \<and> OccurredAt (Envelope r) < from then subject_scan subject from to rs
      else if \<not> IsZero to \<and> to < OccurredAt (Envelope r) then subject_scan subject from to rs
      else r # subject_scan subject from to rs)"

definition mem_BySubject ::
    "string \<Rightarrow> time \<Rightarrow> time \<Rightarrow> int \<Rightarrow> ('a, 'r) Memory \<Rightarrow> (error + ('a, 'r) access_record list) \<times> ('a, 'r) Memory" where
  [store_defs]: "mem_BySubject subject from to limit m =
     (let limit = (if limit \<le> 0 then 1000 else limit);
          out = sort_key (\<lambda>r. (OccurredAt (Envelope r), Seq r)) (subject_scan subject from to (records m));
          out = (if limit < int (length out) then take (nat limit) out else out)
      in (Inr out, m))"

definition mem_SealsForPeriod ::
    "string \<Rightarrow> ('a, 'r) Memory \<Rightarrow> (error + string list \<times> int) \<times> ('a, 'r) Memory" where
  [store_defs]: "mem_SealsForPeriod period m =
     (let rows = map (\<lambda>r. (event_id r, RowSeal r)) (filter (\<lambda>r. row_period r = period) (records m));
          seals = map snd (sort_key fst rows)
      in (Inr (seals, int (length seals)), m))"

text \<open>The set \<^verbatim>\<open>seen\<close> as the list of its keys.\<close>

fun pending_scan ::
    "string \<Rightarrow> (string \<rightharpoonup> checkpoint) \<Rightarrow> ('a, 'r) access_record list \<Rightarrow> string list \<Rightarrow> string list" where
  "pending_scan before cs [] seen = seen"
| "pending_scan before cs (r # rs) seen =
     (let p = row_period r
      in if before \<le> p then pending_scan before cs rs seen
         else if cs p \<noteq> None then pending_scan before cs rs seen
         else pending_scan before cs rs (List.insert p seen))"

definition mem_PendingCheckpointPeriods ::
    "string \<Rightarrow> ('a, 'r) Memory \<Rightarrow> (error + string list) \<times> ('a, 'r) Memory" where
  [store_defs]: "mem_PendingCheckpointPeriods before m =
     (Inr (sort (pending_scan before (checkpoints m) (records m) [])), m)"

definition mem_SaveCheckpoint ::
    "world \<Rightarrow> checkpoint \<Rightarrow> ('a, 'r) Memory \<Rightarrow> (error + bool) \<times> ('a, 'r) Memory" where
  [store_defs]: "mem_SaveCheckpoint w cp m =
     (if checkpoints m (CpPeriod cp) \<noteq> None then (Inr False, m)
      else let stored = (if IsZero (SealedAt cp) then cp\<lparr>SealedAt := now w\<rparr> else cp)
           in (Inr True, m\<lparr>checkpoints := (checkpoints m)(CpPeriod cp \<mapsto> stored)\<rparr>))"

definition mem_LoadCheckpoint ::
    "string \<Rightarrow> ('a, 'r) Memory \<Rightarrow> (error + checkpoint option) \<times> ('a, 'r) Memory" where
  [store_defs]: "mem_LoadCheckpoint period m =
     (case checkpoints m period of None \<Rightarrow> (Inr None, m) | Some cp \<Rightarrow> (Inr (Some cp), m))"

definition mem_SetLegalHold ::
    "string \<Rightarrow> string \<Rightarrow> string \<Rightarrow> bool \<Rightarrow> ('a, 'r) Memory \<Rightarrow> (error + unit) \<times> ('a, 'r) Memory" where
  [store_defs]: "mem_SetLegalHold subject reason placedBy hold m =
     (if hold then (Inr (), m\<lparr>holds := (holds m)(subject \<mapsto> True)\<rparr>)
      else (Inr (), m\<lparr>holds := (holds m)(subject := None)\<rparr>))"

fun heldLocked :: "(string \<rightharpoonup> bool) \<Rightarrow> string list \<Rightarrow> bool" where
  "heldLocked hs [] = False"
| "heldLocked hs (s # ss) = (if hs s = Some True then True else heldLocked hs ss)"

text \<open>The purge loop: the rows kept, the two counters and the event-id map.\<close>

fun purge_scan ::
    "(string \<rightharpoonup> bool) \<Rightarrow> string \<Rightarrow> ('a, 'r) access_record list \<Rightarrow>
     ('a, 'r) access_record list \<times> int \<times> int \<times> (string \<rightharpoonup> ('a, 'r) access_record) \<Rightarrow>
     ('a, 'r) access_record list \<times> int \<times> int \<times> (string \<rightharpoonup> ('a, 'r) access_record)" where
  "purge_scan hs cutoff [] st = st"
| "purge_scan hs cutoff (r # rs) (kept, purged, retained, ids) =
     (if cutoff \<le> row_period r then purge_scan hs cutoff rs (kept @ [r], purged, retained, ids)
      else if heldLocked hs (DataSubjects (Envelope r))
        then purge_scan hs cutoff rs (kept @ [r], purged, retained + 1, ids)
      else purge_scan hs cutoff rs (kept, purged + 1, retained, ids(event_id r := None)))"

definition mem_PurgeExpired ::
    "string \<Rightarrow> ('a, 'r) Memory \<Rightarrow> (error + PurgeResult) \<times> ('a, 'r) Memory" where
  [store_defs]: "mem_PurgeExpired cutoff m =
     (case purge_scan (holds m) cutoff (records m) ([], 0, 0, byEventID m) of
        (kept, purged, retained, ids) \<Rightarrow>
          (Inr \<lparr>Cutoff = cutoff, Purged = purged, RetainedUnderHold = retained\<rparr>,
           m\<lparr>records := kept, byEventID := ids\<rparr>))"

definition mem_AppendVerifyEvent ::
    "world \<Rightarrow> VerifyEvent \<Rightarrow> ('a, 'r) Memory \<Rightarrow> (error + string) \<times> ('a, 'r) Memory" where
  [store_defs]: "mem_AppendVerifyEvent w ev m = (Inr (ulid w), m\<lparr>verifyEvents := verifyEvents m @ [ev]\<rparr>)"

fun sweep_scan :: "time \<Rightarrow> VerifyEvent list \<Rightarrow> VerifyEvent list \<times> int \<Rightarrow> VerifyEvent list \<times> int" where
  "sweep_scan cutoff [] st = st"
| "sweep_scan cutoff (ev # evs) (kept, purged) =
     (if TS ev < cutoff then sweep_scan cutoff evs (kept, purged + 1)
      else sweep_scan cutoff evs (kept @ [ev], purged))"

definition mem_SweepVerifyExpired ::
    "world \<Rightarrow> int \<Rightarrow> ('a, 'r) Memory \<Rightarrow> (error + VerifySweepResult) \<times> ('a, 'r) Memory" where
  [store_defs]: "mem_SweepVerifyExpired w retentionDays m =
     (let cutoff = AddDate (now w) (- retentionDays)
      in case sweep_scan cutoff (verifyEvents m) ([], 0) of
           (kept, purged) \<Rightarrow>
             (Inr \<lparr>SweepCutoff = format_rfc3339 cutoff, SweepPurged = purged\<rparr>, m\<lparr>verifyEvents := kept\<rparr>))"

text \<open>\<^verbatim>\<open>VerifyEvents\<close>: a copy of the stored events.\<close>

definition mem_VerifyEvents :: "('a, 'r) Memory \<Rightarrow> VerifyEvent list" where
  "mem_VerifyEvents m = verifyEvents m"

definition mem_Ping :: "('a, 'r) Memory \<Rightarrow> (error + unit) \<times> ('a, 'r) Memory" where
  [store_defs]: "mem_Ping m = (Inr (), m)"

definition mem_Close :: "('a, 'r) Memory \<Rightarrow> ('a, 'r) Memory" where
  "mem_Close m = m"

definition memory_store :: "(('a, 'r) Memory, 'a, 'r) Store" where
  "memory_store =
     \<lparr>Append = mem_Append, BySubject = mem_BySubject, SealsForPeriod = mem_SealsForPeriod,
      PendingCheckpointPeriods = mem_PendingCheckpointPeriods, SaveCheckpoint = mem_SaveCheckpoint,
      LoadCheckpoint = mem_LoadCheckpoint, SetLegalHold = mem_SetLegalHold, PurgeExpired = mem_PurgeExpired,
      AppendVerifyEvent = mem_AppendVerifyEvent, SweepVerifyExpired = mem_SweepVerifyExpired, Ping = mem_Ping\<rparr>"

section \<open>Invariant and abstraction\<close>

definition mem_inv :: "('a, 'r) Memory \<Rightarrow> bool" where
  "mem_inv m \<longleftrightarrow>
     distinct (map event_id (records m)) \<and>
     byEventID m = map_of (map (\<lambda>r. (event_id r, r)) (records m)) \<and>
     (\<forall>p cp. checkpoints m p = Some cp \<longrightarrow> CpPeriod cp = p) \<and>
     (\<forall>s. holds m s \<noteq> Some False)"

definition mem_abs :: "('a, 'r) Memory \<Rightarrow> ('a, 'r) spec" where
  "mem_abs m =
     \<lparr>log = (\<lambda>k. map_option entry_of (byEventID m k)), cps = checkpoints m,
      held = {s. holds m s = Some True}, evidence = verifyEvents m\<rparr>"

lemma mem_inv_NewMemory: "mem_inv NewMemory"
  by (simp add: mem_inv_def NewMemory_def)

lemma mem_abs_simps [simp]:
  "log (mem_abs m) k = map_option entry_of (byEventID m k)" "cps (mem_abs m) = checkpoints m"
  "held (mem_abs m) = {s. holds m s = Some True}" "evidence (mem_abs m) = verifyEvents m"
  by (simp_all add: mem_abs_def)

lemma byEventID_iff: "mem_inv m \<Longrightarrow> byEventID m k = Some r \<longleftrightarrow> r \<in> set (records m) \<and> event_id r = k"
  by (auto simp: mem_inv_def map_of_eq_Some_iff o_def)

lemma mem_log_iff:
  "mem_inv m \<Longrightarrow> log (mem_abs m) k = Some e \<longleftrightarrow> (\<exists>r \<in> set (records m). event_id r = k \<and> entry_of r = e)"
  by (auto simp: byEventID_iff)

lemma mem_keys:
  assumes "mem_inv m"
  shows "{k. \<exists>e. log (mem_abs m) k = Some e \<and> P e} = event_id ` set (filter (\<lambda>r. P (entry_of r)) (records m))"
  using mem_log_iff [OF assms] by auto

lemma mem_card:
  assumes "mem_inv m"
  shows "card {k. \<exists>e. log (mem_abs m) k = Some e \<and> P e} = length (filter (\<lambda>r. P (entry_of r)) (records m))"
proof -
  have "distinct (map event_id (filter (\<lambda>r. P (entry_of r)) (records m)))"
    using assms by (simp add: mem_inv_def distinct_map_filter)
  then show ?thesis
    unfolding mem_keys [OF assms] by (metis distinct_card length_map set_map)
qed

lemma mem_inv_dom: "mem_inv m \<Longrightarrow> dom (byEventID m) = event_id ` set (records m)"
  by (auto simp: byEventID_iff)

section \<open>The operations refine the specification\<close>

lemma mem_abs_ok:
  assumes "mem_inv m"
  shows "spec_ok (mem_abs m)"
proof -
  have "dom (log (mem_abs m)) = event_id ` set (records m)"
    using mem_inv_dom [OF assms] by (auto simp: dom_def)
  moreover have "EventID (en_Envelope e) = k" if "log (mem_abs m) k = Some e" for k e
    using that mem_log_iff [OF assms] by auto
  ultimately show ?thesis using assms by (simp add: spec_ok_def mem_inv_def)
qed

subsection \<open>Append\<close>

lemma mem_Append_inv:
  assumes "mem_inv m"
  shows "mem_inv (snd (mem_Append w r m))"
proof (cases "byEventID m (event_id r)")
  case None
  then have "event_id r \<notin> event_id ` set (records m)" using mem_inv_dom [OF assms] by blast
  moreover have "map_of (map (\<lambda>r. (event_id r, r)) (records m)) (event_id r) = None"
    using assms None by (simp add: mem_inv_def)
  ultimately show ?thesis
    using assms None
    by (auto simp: mem_inv_def mem_Append_def Let_def fun_eq_iff map_add_def split: option.splits)
qed (use assms in \<open>simp add: mem_Append_def\<close>)

lemma mem_Append_abs: "mem_abs (snd (mem_Append w r m)) = spec_append r (mem_abs m)"
  by (auto simp: mem_abs_def spec_append_def mem_Append_def Let_def split: option.splits)

subsection \<open>Subject reads\<close>

lemma containsString_iff [simp]: "containsString xs s \<longleftrightarrow> s \<in> set xs"
  by (induction xs) auto

lemma subject_scan_filter:
  "subject_scan subject from to rs =
     filter (\<lambda>r. subject \<in> set (DataSubjects (Envelope r)) \<and> (IsZero from \<or> from \<le> OccurredAt (Envelope r)) \<and>
       (IsZero to \<or> OccurredAt (Envelope r) \<le> to)) rs"
  by (induction rs) auto

lemma subject_scan_matches:
  "mem_inv m \<Longrightarrow> entry_of ` set (subject_scan subject from to (records m)) = spec_matches subject from to (mem_abs m)"
  unfolding subject_scan_filter spec_matches_def ran_def using mem_log_iff [of m] by auto

lemma sorted_map_fst_key: "sorted (map (\<lambda>x. (f x, g x)) xs) \<Longrightarrow> sorted (map f xs)"
  by (induction xs) (auto simp: less_eq_prod_def)

lemma mem_BySubject_answer:
  assumes "mem_inv m" and "mem_BySubject subj from to lim m = (Inr rs, m')"
  shows "subject_answer subj from to lim (mem_abs m) rs"
proof -
  define out where "out = sort_key (\<lambda>r. (OccurredAt (Envelope r), Seq r)) (subject_scan subj from to (records m))"
  define n where "n = (if lim \<le> 0 then 1000 else lim)"
  have rs: "rs = take (nat n) out"
    using assms(2) by (auto simp: mem_BySubject_def Let_def out_def n_def split: if_splits)
  have set_out: "entry_of ` set out = spec_matches subj from to (mem_abs m)"
    using subject_scan_matches [OF assms(1)] by (simp add: out_def)
  have "distinct (map event_id (subject_scan subj from to (records m)))"
    using assms(1) by (simp add: subject_scan_filter mem_inv_def distinct_map_filter)
  then have dist: "distinct (map event_id out)"
    by (simp add: out_def distinct_map)
  have "sorted (map (\<lambda>r. OccurredAt (Envelope r)) out)"
    unfolding out_def by (rule sorted_map_fst_key) (rule sorted_sort_key)
  then have sorted: "sorted (map (\<lambda>r. OccurredAt (Envelope r)) rs)"
    by (simp add: rs sorted_wrt_take flip: take_map)
  have "set rs \<subseteq> set out" by (simp add: rs set_take_subset)
  moreover have "distinct (map event_id rs)" using dist by (simp add: rs flip: take_map)
  moreover have "0 < lim \<Longrightarrow> int (length rs) \<le> lim \<and> (int (length rs) < lim \<longrightarrow> rs = out)"
    by (auto simp: rs n_def)
  ultimately show ?thesis
    unfolding subject_answer_def using set_out sorted by auto
qed

subsection \<open>Seals of a period\<close>

lemma sorted_assoc_list:
  assumes "distinct (map fst xs)"
  shows "map snd (sort_key fst xs) = map (\<lambda>k. the (map_of xs k)) (sorted_list_of_set (fst ` set xs))"
proof -
  have d: "distinct (map fst (sort_key fst xs))"
    using assms by (simp add: distinct_map)
  then have "map fst (sort_key fst xs) = sorted_list_of_set (fst ` set xs)"
    by (intro sorted_distinct_set_unique) simp_all
  moreover have "map snd (sort_key fst xs) = map (\<lambda>k. the (map_of xs k)) (map fst (sort_key fst xs))"
    using assms by (auto simp: map_of_is_SomeI)
  ultimately show ?thesis by simp
qed

lemma mem_SealsForPeriod_spec:
  assumes "mem_inv m"
  shows "mem_SealsForPeriod p m = (Inr (spec_seals p (mem_abs m), int (length (spec_seals p (mem_abs m)))), m)"
proof -
  let ?rs = "filter (\<lambda>r. row_period r = p) (records m)"
  let ?rows = "map (\<lambda>r. (event_id r, RowSeal r)) ?rs"
  have keys: "fst ` set ?rows = period_keys p (mem_abs m)"
    unfolding period_keys_def mem_keys [OF assms] by (simp add: image_image)
  have dist: "distinct (map fst ?rows)"
    using assms by (simp add: mem_inv_def o_def distinct_map_filter)
  have "the (map_of ?rows k) = en_Seal (the (log (mem_abs m) k))" if "k \<in> fst ` set ?rows" for k
  proof -
    from that obtain r where r: "r \<in> set ?rs" "event_id r = k" by auto
    then have "map_of ?rows k = Some (RowSeal r)"
      using dist by (intro map_of_is_SomeI) auto
    moreover have "byEventID m k = Some r" using r by (simp add: byEventID_iff [OF assms])
    ultimately show ?thesis by simp
  qed
  then have "map snd (sort_key fst ?rows) = spec_seals p (mem_abs m)"
    unfolding spec_seals_def sorted_assoc_list [OF dist] keys [symmetric] by simp
  then show ?thesis by (simp only: mem_SealsForPeriod_def Let_def)
qed

subsection \<open>Pending periods\<close>

lemma pending_scan_set:
  "set (pending_scan before cs rs seen) =
     set seen \<union> {p. p < before \<and> cs p = None \<and> (\<exists>r \<in> set rs. row_period r = p)}"
  by (induction rs arbitrary: seen) (auto simp: Let_def)

lemma pending_scan_distinct: "distinct seen \<Longrightarrow> distinct (pending_scan before cs rs seen)"
  by (induction rs arbitrary: seen) (auto simp: Let_def)

lemma mem_Pending_spec:
  assumes "mem_inv m" and "mem_PendingCheckpointPeriods before m = (Inr ps, m')"
  shows "set ps = spec_pending before (mem_abs m)" and "sorted ps" and "distinct ps"
proof -
  have ps: "ps = sort (pending_scan before (checkpoints m) (records m) [])"
    using assms(2) by (auto simp: mem_PendingCheckpointPeriods_def)
  have "period_keys p (mem_abs m) \<noteq> {} \<longleftrightarrow> (\<exists>r \<in> set (records m). row_period r = p)" for p
    unfolding period_keys_def using mem_log_iff [OF assms(1)] by fastforce
  then show "set ps = spec_pending before (mem_abs m)"
    by (auto simp: ps pending_scan_set spec_pending_def)
  show "sorted ps" "distinct ps" by (simp_all add: ps pending_scan_distinct)
qed

subsection \<open>Purge\<close>

lemma heldLocked_iff: "heldLocked hs ss \<longleftrightarrow> (\<exists>s \<in> set ss. hs s = Some True)"
  by (induction ss) auto

definition row_kept :: "(string \<rightharpoonup> bool) \<Rightarrow> string \<Rightarrow> ('a, 'r) access_record \<Rightarrow> bool" where
  "row_kept hs cutoff r \<longleftrightarrow> cutoff \<le> row_period r \<or> heldLocked hs (DataSubjects (Envelope r))"

lemma purge_scan_eq:
  "purge_scan hs cutoff rs (kept, p, q, ids) =
     (kept @ filter (row_kept hs cutoff) rs,
      p + int (length (filter (\<lambda>r. \<not> row_kept hs cutoff r) rs)),
      q + int (length (filter (\<lambda>r. row_period r < cutoff \<and> heldLocked hs (DataSubjects (Envelope r))) rs)),
      (\<lambda>k. if k \<in> event_id ` set (filter (\<lambda>r. \<not> row_kept hs cutoff r) rs) then None else ids k))"
proof (induction rs arbitrary: kept p q ids)
  case (Cons r rs)
  then show ?case by (auto simp: row_kept_def fun_eq_iff)
qed simp

lemma row_kept_survives: "row_kept (holds m) cutoff r \<longleftrightarrow> survives cutoff (mem_abs m) (entry_of r)"
  by (simp add: row_kept_def survives_def entry_held_def heldLocked_iff)

lemma distinct_map_of_filter:
  assumes "distinct (map f xs)"
  shows "map_of (map (\<lambda>r. (f r, r)) (filter P xs)) =
    (\<lambda>k. if k \<in> f ` set (filter (\<lambda>r. \<not> P r) xs) then None else map_of (map (\<lambda>r. (f r, r)) xs) k)"
  using assms
proof (induction xs)
  case (Cons x xs)
  then show ?case by (auto simp: fun_eq_iff map_of_eq_None_iff)
qed simp

lemma mem_Purge_inv: "mem_inv m \<Longrightarrow> mem_inv (snd (mem_PurgeExpired cutoff m))"
  by (auto simp: mem_inv_def mem_PurgeExpired_def purge_scan_eq distinct_map_of_filter distinct_map_filter)

lemma mem_Purge_abs:
  assumes "mem_inv m"
  shows "mem_abs (snd (mem_PurgeExpired cutoff m)) = spec_purge cutoff (mem_abs m)"
proof -
  let ?m = "snd (mem_PurgeExpired cutoff m)"
  have recs: "records ?m = filter (row_kept (holds m) cutoff) (records m)"
    by (simp add: mem_PurgeExpired_def purge_scan_eq)
  have "log (mem_abs ?m) k = Some e \<longleftrightarrow> log (spec_purge cutoff (mem_abs m)) k = Some e" for k e
    unfolding mem_log_iff [OF mem_Purge_inv [OF assms]] spec_purge_log mem_log_iff [OF assms] recs
    by (auto simp: row_kept_survives)
  then have "log (mem_abs ?m) = log (spec_purge cutoff (mem_abs m))"
    by (intro ext) (metis not_Some_eq)
  then show ?thesis
    by (simp add: spec_purge_def mem_abs_def mem_PurgeExpired_def purge_scan_eq)
qed

lemma mem_Purge_answer:
  assumes "mem_inv m" and "mem_PurgeExpired cutoff m = (Inr g, m')"
  shows "purge_answer cutoff (mem_abs m) g"
  using assms(2) mem_card [OF assms(1), of "\<lambda>e. \<not> survives cutoff (mem_abs m) e"]
    mem_card [OF assms(1), of "\<lambda>e. entry_period e < cutoff \<and> entry_held (held (mem_abs m)) e"]
  by (auto simp: purge_answer_def mem_PurgeExpired_def purge_scan_eq row_kept_survives entry_held_def
      heldLocked_iff)

subsection \<open>Evidence events\<close>

lemma sweep_scan_eq:
  "sweep_scan cutoff evs (kept, p) =
     (kept @ filter (\<lambda>ev. cutoff \<le> TS ev) evs, p + int (length (filter (\<lambda>ev. TS ev < cutoff) evs)))"
  by (induction evs arbitrary: kept p) auto

lemma length_filter_split: "length xs = length (filter P xs) + length (filter (\<lambda>x. \<not> P x) xs)"
  by (simp add: sum_length_filter_compl)

lemma mem_Sweep_spec:
  assumes "mem_SweepVerifyExpired w days m = (Inr v, m')"
  shows "mem_abs m' = spec_sweep (now w - days * day_ns) (mem_abs m)"
    and "SweepPurged v = int (length (verifyEvents m)) - int (length (verifyEvents m'))"
    and "byEventID m' = byEventID m \<and> records m' = records m \<and> checkpoints m' = checkpoints m \<and> holds m' = holds m"
  using assms length_filter_split [of "verifyEvents m" "\<lambda>ev. now w - days * day_ns \<le> TS ev"]
  by (auto simp: mem_SweepVerifyExpired_def Let_def sweep_scan_eq AddDate_eq spec_sweep_def mem_abs_def not_le)

subsection \<open>Checkpoints\<close>

lemma mem_SaveCheckpoint_spec:
  "mem_SaveCheckpoint w cp m =
     (if checkpoints m (CpPeriod cp) \<noteq> None then (Inr False, m)
      else (Inr True, m\<lparr>checkpoints := (checkpoints m)(CpPeriod cp \<mapsto>
        cp\<lparr>SealedAt := if IsZero (SealedAt cp) then now w else SealedAt cp\<rparr>)\<rparr>))"
  by (cases cp) (simp add: mem_SaveCheckpoint_def)

section \<open>The in-memory store meets the contract\<close>

lemma memory_store_ops [simp]:
  "Append memory_store = mem_Append" "BySubject memory_store = mem_BySubject"
  "SealsForPeriod memory_store = mem_SealsForPeriod"
  "PendingCheckpointPeriods memory_store = mem_PendingCheckpointPeriods"
  "SaveCheckpoint memory_store = mem_SaveCheckpoint" "LoadCheckpoint memory_store = mem_LoadCheckpoint"
  "SetLegalHold memory_store = mem_SetLegalHold" "PurgeExpired memory_store = mem_PurgeExpired"
  "AppendVerifyEvent memory_store = mem_AppendVerifyEvent"
  "SweepVerifyExpired memory_store = mem_SweepVerifyExpired" "Ping memory_store = mem_Ping"
  by (simp_all add: memory_store_def)

lemma mem_Append_law:
  assumes "mem_inv m" and "mem_Append w r m = (res, m')"
  shows "mem_inv m' \<and> (case res of Inl e \<Rightarrow> mem_abs m' = mem_abs m
     | Inr a \<Rightarrow> mem_abs m' = spec_append r (mem_abs m) \<and> ResEventID a = event_id r \<and>
         (Duplicate a \<longleftrightarrow> event_id r \<in> dom (log (mem_abs m))))"
  using assms(2) mem_Append_inv [OF assms(1), of w r] mem_Append_abs [of w r m]
  by (auto simp: mem_Append_def Let_def split: option.splits)

lemma mem_BySubject_law:
  assumes "mem_inv m" and "mem_BySubject subj t0 t1 lim m = (ans, m')"
  shows "mem_inv m' \<and> mem_abs m' = mem_abs m \<and> (\<forall>rs. ans = Inr rs \<longrightarrow> subject_answer subj t0 t1 lim (mem_abs m) rs)"
  using assms mem_BySubject_answer [of m subj t0 t1 lim _ m'] by (auto simp: mem_BySubject_def Let_def)

lemma mem_Pending_law:
  assumes "mem_inv m" and "mem_PendingCheckpointPeriods before m = (res, m')"
  shows "mem_inv m' \<and> mem_abs m' = mem_abs m \<and>
    (\<forall>ps. res = Inr ps \<longrightarrow> set ps = spec_pending before (mem_abs m) \<and> distinct ps)"
proof -
  have "m' = m" using assms(2) by (simp add: mem_PendingCheckpointPeriods_def)
  with assms mem_Pending_spec [OF assms(1)] show ?thesis by auto
qed

lemma mem_Save_law:
  assumes "mem_inv m" and "mem_SaveCheckpoint w cp m = (res, m')"
  shows "mem_inv m' \<and> (case res of Inl e \<Rightarrow> mem_abs m' = mem_abs m
     | Inr created \<Rightarrow> (\<exists>t. mem_abs m' = spec_save (cp\<lparr>SealedAt := t\<rparr>) (mem_abs m)) \<and>
         (created \<longleftrightarrow> CpPeriod cp \<notin> dom (cps (mem_abs m))))"
proof -
  define t where "t = (if IsZero (SealedAt cp) then now w else SealedAt cp)"
  have "mem_inv m' \<and> mem_abs m' = spec_save (cp\<lparr>SealedAt := t\<rparr>) (mem_abs m) \<and>
      res = Inr (CpPeriod cp \<notin> dom (cps (mem_abs m)))"
    using assms unfolding mem_SaveCheckpoint_spec t_def [symmetric]
    by (auto simp: spec_save_def mem_inv_def mem_abs_def dom_def split: if_split_asm)
  then show ?thesis by auto
qed

lemma mem_Purge_law:
  assumes "mem_inv m" and "mem_PurgeExpired cutoff m = (res, m')"
  shows "mem_inv m' \<and> (case res of Inl e \<Rightarrow> mem_abs m' = mem_abs m
     | Inr g \<Rightarrow> mem_abs m' = spec_purge cutoff (mem_abs m) \<and> purge_answer cutoff (mem_abs m) g)"
proof -
  obtain g where "res = Inr g" using assms(2) by (auto simp: mem_PurgeExpired_def split: prod.splits)
  with assms show ?thesis
    using mem_Purge_inv [OF assms(1), of cutoff] mem_Purge_abs [OF assms(1), of cutoff]
      mem_Purge_answer [OF assms(1), of cutoff g m'] by simp
qed

lemma mem_Sweep_law:
  assumes "mem_inv m" and "mem_SweepVerifyExpired w days m = (res, m')"
  shows "mem_inv m' \<and> (case res of Inl e \<Rightarrow> mem_abs m' = mem_abs m
     | Inr v \<Rightarrow> mem_abs m' = spec_sweep (now w - days * day_ns) (mem_abs m) \<and>
         SweepPurged v = int (length (evidence (mem_abs m))) - int (length (evidence (mem_abs m'))))"
proof -
  obtain v where v: "res = Inr v"
    using assms(2) by (auto simp: mem_SweepVerifyExpired_def Let_def split: prod.splits)
  note sw = mem_Sweep_spec [OF assms(2) [unfolded v]]
  have "mem_inv m'" using sw(3) assms(1) by (simp add: mem_inv_def)
  moreover have "SweepPurged v = int (length (evidence (mem_abs m))) - int (length (evidence (mem_abs m')))"
    using sw(2) by simp
  ultimately show ?thesis using sw(1) v by (simp only: sum.case)
qed

interpretation mem: store_contract memory_store mem_inv mem_abs
  apply unfold_locales
  unfolding memory_store_ops
  subgoal by (rule mem_abs_ok)
  subgoal by (rule mem_Append_law)
  subgoal by (rule mem_BySubject_law)
  subgoal by (auto simp: mem_SealsForPeriod_spec)
  subgoal by (rule mem_Pending_law)
  subgoal by (rule mem_Save_law)
  subgoal by (auto simp: mem_LoadCheckpoint_def split: option.splits)
  subgoal by (auto simp: mem_SetLegalHold_def spec_hold_def mem_inv_def mem_abs_def split: if_splits)
  subgoal by (rule mem_Purge_law)
  subgoal by (auto simp: mem_AppendVerifyEvent_def spec_record_evidence_def mem_inv_def mem_abs_def)
  subgoal by (rule mem_Sweep_law)
  subgoal by (simp add: mem_Ping_def)
  done

interpretation mem: reliable_store memory_store mem_inv mem_abs
  by unfold_locales (simp_all add: store_defs Let_def split: option.splits prod.splits)

section \<open>Properties\<close>

definition sample_row :: "string \<Rightarrow> time \<Rightarrow> (string, string) access_record" where
  "sample_row k t = \<lparr>RowID = [], Envelope = sample_envelope\<lparr>EventID := k, OccurredAt := t\<rparr>, RowSeal = ''00'',
     Seq = 0, SourceService = ''svc:crm'', System = ''default''\<rparr>"

definition sample_world :: world where
  "sample_world = \<lparr>now = Date 2024 12 3, ulid = ''01J''\<rparr>"

lemma digit_chars: "digit 0 = CHR ''0''" "digit 1 = CHR ''1''" "digit (Suc 0) = CHR ''1''" "digit 2 = CHR ''2''"
    "digit 3 = CHR ''3''" "digit 4 = CHR ''4''" "digit 5 = CHR ''5''"
  by code_simp+

lemma Period_samples [simp]: "Period (Date 2023 1 9) = ''2023-01-01''" "Period (Date 2024 5 17) = ''2024-05-01''"
    "Period (Date 2024 12 3) = ''2024-12-01''"
  by (simp_all add: Period_eq format_date_def appendInt_def pad_def decimal_1 decimal_2 decimal_4 digit_chars)

text \<open>A store after two appends.\<close>

definition row1 :: "(string, string) access_record" where
  "row1 = sample_row ''e1'' (Date 2023 1 9)"

definition row2 :: "(string, string) access_record" where
  "row2 = sample_row ''e2'' (Date 2024 5 17)"

definition sample_memory :: "(string, string) Memory" where
  "sample_memory = snd (mem_Append sample_world row2 (snd (mem_Append sample_world row1 NewMemory)))"

lemma row_samples [simp]: "event_id row1 = ''e1''" "event_id row2 = ''e2''"
    "OccurredAt (Envelope row1) = Date 2023 1 9" "OccurredAt (Envelope row2) = Date 2024 5 17"
    "DataSubjects (Envelope row1) = [''usr_1'', ''usr_2'']" "DataSubjects (Envelope row2) = [''usr_1'', ''usr_2'']"
  by (simp_all add: row1_def row2_def sample_row_def sample_envelope_def)

lemma sample_memory_eq: "sample_memory =
    (let c1 = row1\<lparr>RowID := ''01J'', Seq := 1\<rparr>; c2 = row2\<lparr>RowID := ''01J'', Seq := 2\<rparr>
     in \<lparr>byEventID = [''e1'' \<mapsto> c1, ''e2'' \<mapsto> c2], records = [c1, c2], checkpoints = Map.empty, holds = Map.empty,
         verifyEvents = []\<rparr>)"
  by (simp add: sample_memory_def mem_Append_def NewMemory_def Let_def sample_world_def)

lemma sample_memory_inv: "mem_inv sample_memory"
  unfolding sample_memory_def by (intro mem_Append_inv mem_inv_NewMemory)

text \<open>C3: the in-memory store refines the abstract append-only log: every operation keeps the
  store's invariant, changes the abstract log exactly as its specification says, and reads answer
  from it.\<close>

theorem memory_refines_log: "store_contract memory_store mem_inv mem_abs"
  by unfold_locales

text \<open>An append is idempotent on the event id. Once a record is appended, any later append with
  its event id, whatever its content, reports a duplicate with the id of the first record and
  leaves the store as it is.\<close>

theorem append_idempotent:
  assumes "mem_Append w r m = (Inr res, m')" and "EventID (Envelope r') = EventID (Envelope r)"
  shows "mem_Append w' r' m' =
    (Inr \<lparr>RecordID = RecordID res, ResEventID = EventID (Envelope r), Duplicate = True\<rparr>, m')"
  using assms by (auto simp: mem_Append_def Let_def split: option.splits)

theorem append_idempotent_witness:
  "mem_Append sample_world row2 (snd (mem_Append sample_world row2 NewMemory)) =
     (Inr \<lparr>RecordID = ''01J'', ResEventID = ''e2'', Duplicate = True\<rparr>,
      snd (mem_Append sample_world row2 NewMemory))"
proof -
  have "mem_Append sample_world row2 NewMemory =
      (Inr \<lparr>RecordID = ''01J'', ResEventID = ''e2'', Duplicate = False\<rparr>, snd (mem_Append sample_world row2 NewMemory))"
    by (simp add: mem_Append_def NewMemory_def Let_def sample_world_def)
  from append_idempotent [OF this refl] show ?thesis by simp
qed

text \<open>C24: a subject read returns only stored records of the subject in the time range (a zero bound is
  none), in order of occurrence and none twice, at most as many as the limit (1000 when none is
  given); a matching record is left out only when that limit is reached, and then it does not precede
  any returned one. There is no upper bound on the limit: one above the documented cap of 10000 is
  honoured.\<close>

theorem by_subject_exact:
  assumes "mem_inv m" and "mem_BySubject subject from to limit m = (Inr rs, m')"
  shows "let hits = {r \<in> set (records m). subject \<in> set (DataSubjects (Envelope r)) \<and>
        (from = 0 \<or> from \<le> OccurredAt (Envelope r)) \<and> (to = 0 \<or> OccurredAt (Envelope r) \<le> to)};
      n = (if limit \<le> 0 then 1000 else limit)
    in m' = m \<and> distinct rs \<and> sorted (map (\<lambda>r. OccurredAt (Envelope r)) rs) \<and> set rs \<subseteq> hits \<and> int (length rs) \<le> n \<and>
      (\<forall>r \<in> hits - set rs. int (length rs) = n \<and> (\<forall>r' \<in> set rs. OccurredAt (Envelope r') \<le> OccurredAt (Envelope r)))"
proof -
  define f where "f r = OccurredAt (Envelope r)" for r :: "('a, 'b) access_record"
  define out where "out = sort_key (\<lambda>r. (f r, Seq r)) (subject_scan subject from to (records m))"
  define n where "n = (if limit \<le> 0 then 1000 else limit)"
  have n: "0 < n" by (simp add: n_def)
  have rs: "rs = take (nat n) out" and "m' = m"
    using assms(2) by (auto simp: mem_BySubject_def Let_def out_def f_def n_def split: if_splits)
  have "sorted (map (\<lambda>r. (f r, Seq r)) out)" by (simp add: out_def)
  then have so: "sorted (map f out)" by (rule sorted_map_fst_key)
  have "distinct (records m)" using assms(1) by (auto simp: mem_inv_def distinct_map)
  then have d: "distinct out" by (simp add: out_def subject_scan_filter)
  have split: "out = rs @ drop (nat n) out" by (simp add: rs)
  have "f r' \<le> f r" if "r' \<in> set rs" "r \<in> set (drop (nat n) out)" for r r'
    using so that unfolding arg_cong [OF split, of "map f"] by (auto simp: sorted_append)
  moreover have "r \<in> set (drop (nat n) out)" if "r \<in> set out - set rs" for r
    using that split by (metis DiffD1 DiffD2 Un_iff set_append)
  moreover have "int (length rs) = n" if "r \<in> set (drop (nat n) out)" for r
    using that n rs by (cases "nat n \<le> length out") auto
  moreover have "set rs \<subseteq> set out" using rs set_take_subset by metis
  moreover have "sorted (map f rs)" unfolding rs take_map [symmetric] using so by (rule sorted_wrt_take)
  moreover have "{r \<in> set (records m). subject \<in> set (DataSubjects (Envelope r)) \<and>
      (from = 0 \<or> from \<le> f r) \<and> (to = 0 \<or> f r \<le> to)} = set out"
    by (auto simp: out_def subject_scan_filter IsZero_def f_def)
  moreover have "distinct rs" "int (length rs) \<le> n" using d n rs by simp_all
  ultimately show ?thesis using \<open>m' = m\<close> unfolding n_def [symmetric] f_def [symmetric] Let_def by blast
qed

theorem by_subject_exact_witness:
  "mem_inv sample_memory \<and> mem_BySubject ''usr_1'' 0 (Date 2023 1 9) 5 sample_memory =
     (Inr [row1\<lparr>RowID := ''01J'', Seq := 1\<rparr>], sample_memory) \<and>
   sorted (map (\<lambda>r. OccurredAt (Envelope r)) [row1\<lparr>RowID := ''01J'', Seq := 1\<rparr>])"
proof -
  have "mem_BySubject ''usr_1'' 0 (Date 2023 1 9) 5 sample_memory = (Inr [row1\<lparr>RowID := ''01J'', Seq := 1\<rparr>], sample_memory)"
    by (simp add: mem_BySubject_def sample_memory_eq Let_def IsZero_def) code_simp
  with by_subject_exact [OF sample_memory_inv this] sample_memory_inv show ?thesis unfolding Let_def by blast
qed

lemma mem_ops_total:
  "\<exists>res. mem_PurgeExpired cutoff m = (Inr res, snd (mem_PurgeExpired cutoff m))"
  "\<exists>v. mem_SweepVerifyExpired w days m = (Inr v, snd (mem_SweepVerifyExpired w days m))"
  by (simp_all add: mem_PurgeExpired_def mem_SweepVerifyExpired_def Let_def case_prod_beta)

text \<open>C14: a purge removes exactly the rows of periods before the cutoff that concern no held
  subject, keeps the others in order, counts both kinds, and leaves checkpoints, holds and
  evidence alone.\<close>

theorem purge_exact:
  assumes "mem_inv m" and "mem_PurgeExpired cutoff m = (Inr res, m')"
  shows "let held_row = (\<lambda>r. \<exists>s \<in> set (DataSubjects (Envelope r)). holds m s = Some True)
    in records m' = filter (\<lambda>r. cutoff \<le> row_period r \<or> held_row r) (records m) \<and>
       Purged res = int (length (records m)) - int (length (records m')) \<and>
       RetainedUnderHold res = int (length (filter (\<lambda>r. row_period r < cutoff \<and> held_row r) (records m))) \<and>
       Cutoff res = cutoff \<and> mem_inv m' \<and>
       checkpoints m' = checkpoints m \<and> holds m' = holds m \<and> verifyEvents m' = verifyEvents m"
proof -
  have "mem_inv m'" using mem_Purge_inv [OF assms(1), of cutoff] assms(2) by simp
  then show ?thesis
    using assms(2) length_filter_split [of "records m" "row_kept (holds m) cutoff"]
    by (auto simp: mem_PurgeExpired_def purge_scan_eq row_kept_def [abs_def] heldLocked_iff Let_def)
qed

theorem purge_exact_witness:
  "records (snd (mem_PurgeExpired ''2024-01-01'' sample_memory)) = [row2\<lparr>RowID := ''01J'', Seq := 2\<rparr>] \<and>
   mem_inv (snd (mem_PurgeExpired ''2024-01-01'' sample_memory))"
proof -
  obtain res where p: "mem_PurgeExpired ''2024-01-01'' sample_memory =
      (Inr res, snd (mem_PurgeExpired ''2024-01-01'' sample_memory))"
    using mem_ops_total(1) by blast
  from purge_exact [OF sample_memory_inv p] show ?thesis
    by (auto simp: Let_def) (simp add: sample_memory_eq Let_def)
qed

text \<open>A purge leaves the seals and the row count of every period it does not cut off as they
  were, so a checkpoint of a retained period that verified before it still verifies after it.\<close>

theorem purge_keeps_retained_seals:
  assumes "mem_inv m" and "mem_PurgeExpired cutoff m = (Inr res, m')" and "cutoff \<le> p"
  shows "fst (mem_SealsForPeriod p m') = fst (mem_SealsForPeriod p m)"
proof -
  have "mem_inv m'" "mem_abs m' = spec_purge cutoff (mem_abs m)"
    using mem_Purge_inv [OF assms(1), of cutoff] mem_Purge_abs [OF assms(1), of cutoff] assms(2) by simp_all
  then show ?thesis
    using mem_SealsForPeriod_spec [of m' p] mem_SealsForPeriod_spec [OF assms(1), of p]
      spec_purge_seals [OF assms(3) mem_abs_ok [OF assms(1)]] by simp
qed

theorem purge_keeps_retained_seals_witness:
  "fst (mem_SealsForPeriod ''2024-05-01'' (snd (mem_PurgeExpired ''2024-01-01'' sample_memory))) =
   Inr ([''00''], 1)"
proof -
  obtain res where p: "mem_PurgeExpired ''2024-01-01'' sample_memory =
      (Inr res, snd (mem_PurgeExpired ''2024-01-01'' sample_memory))"
    using mem_ops_total(1) by blast
  have "''2024-01-01'' \<le> (''2024-05-01'' :: string)" by simp
  from purge_keeps_retained_seals [OF sample_memory_inv p this] show ?thesis
    by (simp add: mem_SealsForPeriod_def sample_memory_eq Let_def) (simp add: row2_def sample_row_def)
qed

text \<open>The periods pending a checkpoint are exactly those before the given one that hold a row
  and have no checkpoint, sorted and without duplicates.\<close>

theorem pending_periods_exact:
  assumes "mem_PendingCheckpointPeriods before m = (Inr ps, m')"
  shows "m' = m \<and> sorted ps \<and> distinct ps \<and>
    (\<forall>p. p \<in> set ps \<longleftrightarrow> p < before \<and> checkpoints m p = None \<and> (\<exists>r \<in> set (records m). row_period r = p))"
proof -
  have "ps = sort (pending_scan before (checkpoints m) (records m) [])" "m' = m"
    using assms by (auto simp: mem_PendingCheckpointPeriods_def)
  then show ?thesis by (auto simp: pending_scan_set pending_scan_distinct)
qed

theorem pending_periods_exact_witness:
  "\<exists>ps. mem_PendingCheckpointPeriods ''2024-05-01'' sample_memory = (Inr ps, sample_memory) \<and>
     set ps = {''2023-01-01''}"
proof -
  obtain ps where p: "mem_PendingCheckpointPeriods ''2024-05-01'' sample_memory = (Inr ps, sample_memory)"
    by (simp add: mem_PendingCheckpointPeriods_def)
  have rows: "(\<exists>r \<in> set (records sample_memory). row_period r = q) \<longleftrightarrow> q = ''2023-01-01'' \<or> q = ''2024-05-01''"
      "checkpoints sample_memory q = None" for q
    unfolding sample_memory_eq Let_def by (simp_all add: eq_commute [of q])
  have iff: "q \<in> set ps \<longleftrightarrow> q < ''2024-05-01'' \<and> (q = ''2023-01-01'' \<or> q = ''2024-05-01'')" for q
    using conjunct2 [OF conjunct2 [OF conjunct2 [OF pending_periods_exact [OF p]]], rule_format, of q]
    unfolding rows by simp
  have "''2023-01-01'' < (''2024-05-01'' :: string)" by simp
  then have "q \<in> set ps \<longleftrightarrow> q = ''2023-01-01''" for q using iff [of q] less_irrefl by metis
  then have "set ps = {''2023-01-01''}" by blast
  with p show ?thesis by blast
qed

text \<open>Checkpoints are write-once. Saving one for a period that has none stores it (with the
  clock's time when it carries none) and reports it created; any other save reports that nothing
  was created and changes nothing.\<close>

theorem checkpoint_write_once:
  "case checkpoints m (CpPeriod cp) of
     Some old \<Rightarrow> mem_SaveCheckpoint w cp m = (Inr False, m)
   | None \<Rightarrow> \<exists>m'. mem_SaveCheckpoint w cp m = (Inr True, m') \<and>
       fst (mem_LoadCheckpoint (CpPeriod cp) m') =
         Inr (Some (cp\<lparr>SealedAt := if IsZero (SealedAt cp) then now w else SealedAt cp\<rparr>)) \<and>
       m' = m\<lparr>checkpoints := (checkpoints m)(CpPeriod cp := checkpoints m' (CpPeriod cp))\<rparr>"
  by (auto simp: mem_SaveCheckpoint_spec mem_LoadCheckpoint_def split: option.splits)

text \<open>The evidence sweep keeps, in order, exactly the events of the last
  \<open>days\<close> days and reports how many it removed.\<close>

theorem evidence_sweep_exact:
  assumes "mem_SweepVerifyExpired w days m = (Inr v, m')"
  shows "mem_VerifyEvents m' = filter (\<lambda>ev. now w - days * day_ns \<le> TS ev) (mem_VerifyEvents m) \<and>
    SweepPurged v = int (length (mem_VerifyEvents m)) - int (length (mem_VerifyEvents m')) \<and>
    records m' = records m \<and> byEventID m' = byEventID m \<and> checkpoints m' = checkpoints m \<and> holds m' = holds m"
proof -
  have "evidence (mem_abs m') = filter (\<lambda>ev. now w - days * day_ns \<le> TS ev) (evidence (mem_abs m))"
    using mem_Sweep_spec(1) [OF assms] by (simp add: spec_sweep_def)
  then show ?thesis
    using mem_Sweep_spec(2,3) [OF assms] by (simp add: mem_VerifyEvents_def)
qed

definition sample_event :: "time \<Rightarrow> VerifyEvent" where
  "sample_event t = \<lparr>TS = t, EvIP = ''203.0.113.7'', UserAgent = [], SizeBytes = 1, SHA256 = [], Verdict = ''valid'',
     CorrelationID = [], SessionID = [], EvSourceService = ''svc:verify''\<rparr>"

theorem evidence_sweep_exact_witness:
  "mem_VerifyEvents (snd (mem_SweepVerifyExpired sample_world 90 (sample_memory
      \<lparr>verifyEvents := [sample_event (Date 2024 12 3 - 91 * day_ns), sample_event (Date 2024 12 3 - 90 * day_ns)]\<rparr>))) =
   [sample_event (Date 2024 12 3 - 90 * day_ns)]"
proof -
  let ?m = "sample_memory
      \<lparr>verifyEvents := [sample_event (Date 2024 12 3 - 91 * day_ns), sample_event (Date 2024 12 3 - 90 * day_ns)]\<rparr>"
  obtain v where v: "mem_SweepVerifyExpired sample_world 90 ?m = (Inr v, snd (mem_SweepVerifyExpired sample_world 90 ?m))"
    using mem_ops_total(2) by blast
  have "mem_VerifyEvents (snd (mem_SweepVerifyExpired sample_world 90 ?m)) =
      filter (\<lambda>ev. now sample_world - 90 * day_ns \<le> TS ev) (mem_VerifyEvents ?m)"
    using evidence_sweep_exact [OF v] by blast
  also have "\<dots> = [sample_event (Date 2024 12 3 - 90 * day_ns)]"
    by (simp add: mem_VerifyEvents_def sample_world_def sample_event_def day_ns_def second_def)
  finally show ?thesis .
qed



end
