(* ===== verification/Retention.thy ===== *)
theory Retention
  imports Web Memory
begin

text \<open>
  \<^verbatim>\<open>tasks/retention.go\<close>: one retention sweep (checkpoint the closed periods, purge the
  expired ones, sweep the evidence) over any store, and the task's goroutine with its ticker and
  stop handshake as a step relation. A sweep's readings of the clock are a sequence \<open>clk\<close>:
  \<open>clk 0\<close> is the reading of \<^verbatim>\<open>runOnce\<close>, the later ones are those of the store calls.
  The lemmas about sweeps hold for every store that meets \<open>store_contract\<close>.
\<close>

section \<open>The sweep\<close>

record ('s, 'a, 'r) RetentionConfig =
  rc_Store :: "('s, 'a, 'r) Store"
  rc_Sealer :: sealer
  rc_Events :: "emitter option"
  rc_Interval :: int
  rc_Window :: int
  rc_VerifyRetentionDays :: int
  rc_Logger :: bool

text \<open>\<^verbatim>\<open>log()\<close>: a nil logger is replaced by one that discards.\<close>

definition log_line :: "('s, 'a, 'r) RetentionConfig \<Rightarrow> log_entry \<Rightarrow> 's sys \<Rightarrow> 's sys" where
  "log_line rc l y = (if rc_Logger rc then y\<lparr>logs := logs y @ [l]\<rparr> else y)"

text \<open>\<^verbatim>\<open>checkpoint\<close>; \<open>None\<close> is the nil error. The zero \<^verbatim>\<open>SealedAt\<close> is filled by
  the store.\<close>

definition checkpoint_period ::
    "('s, 'a, 'r) RetentionConfig \<Rightarrow> world \<Rightarrow> string \<Rightarrow> 's sys \<Rightarrow> error option \<times> 's sys" where
  "checkpoint_period rc w period y =
     (case on_store (SealsForPeriod (rc_Store rc) period) y of
        (Inl err, y) \<Rightarrow> (Some err, y)
      | (Inr (seals, n), y) \<Rightarrow>
          (case on_store (SaveCheckpoint (rc_Store rc) w
                  \<lparr>CpPeriod = period, RowCount = n, CpSeal = Checkpoint (rc_Sealer rc) seals n, SealedAt = 0\<rparr>) y of
             (Inl err, y) \<Rightarrow> (Some err, y)
           | (Inr created, y) \<Rightarrow>
               (None, if created then on_tel (CheckpointWritten (rc_Events rc) period n) y else y)))"

text \<open>The loop over the pending periods: an error is logged and the loop goes on.\<close>

fun checkpoint_all ::
    "('s, 'a, 'r) RetentionConfig \<Rightarrow> (nat \<Rightarrow> world) \<Rightarrow> nat \<Rightarrow> string list \<Rightarrow> 's sys \<Rightarrow> 's sys" where
  "checkpoint_all rc clk i [] y = y"
| "checkpoint_all rc clk i (p # ps) y =
     (case checkpoint_period rc (clk i) p y of
        (Some err, y) \<Rightarrow>
          checkpoint_all rc clk (i + 1) ps (log_line rc (LogError ''retention: checkpoint period'') y)
      | (None, y) \<Rightarrow> checkpoint_all rc clk (i + 1) ps y)"

definition seal_pending :: "('s, 'a, 'r) RetentionConfig \<Rightarrow> (nat \<Rightarrow> world) \<Rightarrow> 's sys \<Rightarrow> 's sys" where
  "seal_pending rc clk y =
     (case on_store (PendingCheckpointPeriods (rc_Store rc) (Period (now (clk 0)))) y of
        (Inl err, y) \<Rightarrow> log_line rc (LogError ''retention: list pending checkpoints'') y
      | (Inr pending, y) \<Rightarrow> checkpoint_all rc clk 2 pending y)"

definition sweep_evidence :: "('s, 'a, 'r) RetentionConfig \<Rightarrow> (nat \<Rightarrow> world) \<Rightarrow> 's sys \<Rightarrow> 's sys" where
  "sweep_evidence rc clk y =
     (if 0 < rc_VerifyRetentionDays rc then
        (case on_store (SweepVerifyExpired (rc_Store rc) (clk 1) (rc_VerifyRetentionDays rc)) y of
           (Inl err, y) \<Rightarrow> log_line rc (LogError ''retention: verify-evidence sweep'') y
         | (Inr vres, y) \<Rightarrow> log_line rc (LogInfo ''verify-evidence sweep complete'') y)
      else y)"

definition runOnce :: "('s, 'a, 'r) RetentionConfig \<Rightarrow> (nat \<Rightarrow> world) \<Rightarrow> 's sys \<Rightarrow> 's sys" where
  "runOnce rc clk y =
     (let y = seal_pending rc clk y;
          cutoff = Period (now (clk 0) - rc_Window rc)
      in case on_store (PurgeExpired (rc_Store rc) cutoff) y of
           (Inl err, y) \<Rightarrow> log_line rc (LogError ''retention: purge'') y
         | (Inr res, y) \<Rightarrow>
             sweep_evidence rc clk
               (log_line rc (LogInfo ''retention sweep complete'')
                 (on_tel (RetentionPurge (rc_Events rc) (Cutoff res) (Purged res) (RetainedUnderHold res)) y)))"

section \<open>What a sweep does to the log\<close>

lemma log_line_simps [simp]: "st (log_line rc l y) = st y" "tel (log_line rc l y) = tel y"
  by (simp_all add: log_line_def)

text \<open>A checkpoint that attests the rows the log holds for its period.\<close>

definition attests :: "sealer \<Rightarrow> ('a, 'r) spec \<Rightarrow> checkpoint \<Rightarrow> bool" where
  "attests s \<sigma> cp \<longleftrightarrow>
     CpSeal cp = Checkpoint s (spec_seals (CpPeriod cp) \<sigma>) (RowCount cp) \<and>
     RowCount cp = int (length (spec_seals (CpPeriod cp) \<sigma>))"

text \<open>\<open>sealed_by s \<sigma> \<sigma>'\<close>: only checkpoints were added, none was changed, and each new one
  attests the rows of its period.\<close>

definition sealed_by :: "sealer \<Rightarrow> ('a, 'r) spec \<Rightarrow> ('a, 'r) spec \<Rightarrow> bool" where
  "sealed_by s \<sigma> \<sigma>' \<longleftrightarrow>
     log \<sigma>' = log \<sigma> \<and> held \<sigma>' = held \<sigma> \<and> evidence \<sigma>' = evidence \<sigma> \<and> cps \<sigma> \<subseteq>\<^sub>m cps \<sigma>' \<and>
     (\<forall>p cp. cps \<sigma>' p = Some cp \<longrightarrow> cps \<sigma> p = Some cp \<or> CpPeriod cp = p \<and> attests s \<sigma> cp)"

lemma attests_log: "log \<sigma>' = log \<sigma> \<Longrightarrow> attests s \<sigma>' cp = attests s \<sigma> cp"
  by (simp add: attests_def spec_seals_def period_keys_def)

lemma sealed_by_refl [simp, intro]: "sealed_by s \<sigma> \<sigma>"
  by (simp add: sealed_by_def)

lemma sealed_by_ok: "sealed_by s \<sigma> \<sigma>' \<Longrightarrow> spec_ok \<sigma> \<Longrightarrow> spec_ok \<sigma>'"
  unfolding sealed_by_def spec_ok_def by metis

lemma spec_seals_cong: "log \<sigma>' = log \<sigma> \<Longrightarrow> spec_seals p \<sigma>' = spec_seals p \<sigma>"
  by (simp add: spec_seals_def period_keys_def)

lemma sealed_by_trans:
  assumes "sealed_by s \<sigma> \<sigma>'" and "sealed_by s \<sigma>' \<sigma>''"
  shows "sealed_by s \<sigma> \<sigma>''"
  using assms attests_log [of \<sigma>' \<sigma> s] map_le_trans [of "cps \<sigma>" "cps \<sigma>'" "cps \<sigma>''"]
  unfolding sealed_by_def by metis

lemma spec_save_simps:
  "log (spec_save cp \<sigma>) = log \<sigma>" "held (spec_save cp \<sigma>) = held \<sigma>" "evidence (spec_save cp \<sigma>) = evidence \<sigma>"
  "dom (cps (spec_save cp \<sigma>)) = insert (CpPeriod cp) (dom (cps \<sigma>))"
  by (auto simp: spec_save_def)

lemma spec_save_has: "CpPeriod cp = p \<Longrightarrow> \<exists>c. cps (spec_save cp \<sigma>) p = Some c"
  by (auto simp: spec_save_def)

lemma sealed_by_save: "attests s \<sigma> cp \<Longrightarrow> sealed_by s \<sigma> (spec_save cp \<sigma>)"
  by (auto simp: sealed_by_def spec_save_simps) (auto simp: spec_save_def map_le_def split: if_splits)

context store_contract
begin

lemma checkpoint_period_effect:
  assumes "inv (st y)" and "rc_Store rc = S" and "checkpoint_period rc w p y = (res, y')"
  shows "inv (st y') \<and> sealed_by (rc_Sealer rc) (abs (st y)) (abs (st y')) \<and>
    (res = None \<longrightarrow> p \<in> dom (cps (abs (st y')))) \<and> tel_extends (tel y) (tel y')"
proof (cases "SealsForPeriod S p (st y)")
  case (Pair sres s1)
  note seals = seals_law [OF assms(1) Pair]
  show ?thesis
  proof (cases sres)
    case (Inl err)
    then show ?thesis
      using assms(2,3) Pair seals by (auto simp: checkpoint_period_def on_store_def)
  next
    case (Inr ss)
    obtain xs n where ss: "ss = (xs, n)" by force
    define cp where "cp = \<lparr>CpPeriod = p, RowCount = n, CpSeal = Checkpoint (rc_Sealer rc) xs n, SealedAt = 0\<rparr>"
    obtain cres s2 where save: "SaveCheckpoint S w cp s1 = (cres, s2)" by force
    have s1: "inv s1" "abs s1 = abs (st y)" "xs = spec_seals p (abs (st y))" "n = int (length xs)"
      using seals Inr ss by auto
    have at: "attests (rc_Sealer rc) (abs s1) (cp\<lparr>SealedAt := t\<rparr>)" for t
      by (simp add: attests_def cp_def s1)
    have y': "st y' = s2" "res = (case cres of Inl e \<Rightarrow> Some e | Inr _ \<Rightarrow> None)" "tel_extends (tel y) (tel y')"
      using assms(2,3) Pair Inr ss save
      by (auto simp: checkpoint_period_def on_store_def cp_def split: sum.splits if_splits)
    show ?thesis
      using save_law [OF s1(1) save] sealed_by_save [OF at] y' s1(2)
      by (auto simp: spec_save_has cp_def split: sum.splits)
  qed
qed

lemma checkpoint_all_effect:
  assumes "inv (st y)" and "rc_Store rc = S"
  shows "inv (st (checkpoint_all rc clk i ps y)) \<and>
    sealed_by (rc_Sealer rc) (abs (st y)) (abs (st (checkpoint_all rc clk i ps y))) \<and>
    tel_extends (tel y) (tel (checkpoint_all rc clk i ps y))"
  using assms(1)
proof (induction ps arbitrary: i y)
  case Nil
  then show ?case by simp
next
  case (Cons p ps)
  obtain res y1 where c: "checkpoint_period rc (clk i) p y = (res, y1)" by force
  note e = checkpoint_period_effect [OF Cons.prems assms(2) c]
  define y2 where "y2 = (if res = None then y1 else log_line rc (LogError ''retention: checkpoint period'') y1)"
  have y2: "st y2 = st y1" "tel y2 = tel y1" by (simp_all add: y2_def)
  have "checkpoint_all rc clk i (p # ps) y = checkpoint_all rc clk (i + 1) ps y2"
    by (simp add: c y2_def split: option.splits)
  then show ?case
    using Cons.IH [of y2 "i + 1"] e y2 sealed_by_trans tel_extends_trans by metis
qed

lemma seal_pending_effect:
  assumes "inv (st y)" and "rc_Store rc = S"
  shows "inv (st (seal_pending rc clk y)) \<and>
    sealed_by (rc_Sealer rc) (abs (st y)) (abs (st (seal_pending rc clk y))) \<and>
    tel_extends (tel y) (tel (seal_pending rc clk y))"
proof (cases "PendingCheckpointPeriods S (Period (now (clk 0))) (st y)")
  case (Pair res s)
  note p = pending_law [OF assms(1) Pair]
  show ?thesis
    using checkpoint_all_effect [of "y\<lparr>st := s\<rparr>" rc clk 2] p Pair assms(2)
    by (auto simp: seal_pending_def on_store_def split: sum.splits)
qed

text \<open>The whole sweep: checkpoints are added first; the log only changes by the purge and the
  evidence only by its sweep.\<close>

lemma runOnce_effect:
  assumes "inv (st y)" and "rc_Store rc = S"
  obtains \<sigma> where "sealed_by (rc_Sealer rc) (abs (st y)) \<sigma>"
    and "inv (st (runOnce rc clk y))" and "tel_extends (tel y) (tel (runOnce rc clk y))"
    and "cps (abs (st (runOnce rc clk y))) = cps \<sigma>" and "held (abs (st (runOnce rc clk y))) = held \<sigma>"
    and "log (abs (st (runOnce rc clk y))) \<in> {log \<sigma>, log (spec_purge (Period (now (clk 0) - rc_Window rc)) \<sigma>)}"
    and "evidence (abs (st (runOnce rc clk y))) \<in>
           {evidence \<sigma>, evidence (spec_sweep (now (clk 1) - rc_VerifyRetentionDays rc * day_ns) \<sigma>)}"
proof -
  define y1 where "y1 = seal_pending rc clk y"
  note e1 = seal_pending_effect [OF assms, of clk, folded y1_def]
  obtain gres s2 where g: "PurgeExpired S (Period (now (clk 0) - rc_Window rc)) (st y1) = (gres, s2)" by force
  note e2 = purge_law [OF conjunct1 [OF e1] g]
  obtain vres s3 where v: "SweepVerifyExpired S (clk 1) (rc_VerifyRetentionDays rc) s2 = (vres, s3)" by force
  note e3 = sweep_law [OF conjunct1 [OF e2] v]
  let ?y' = "runOnce rc clk y"
  show ?thesis
  proof (cases gres)
    case (Inl err)
    then have "st ?y' = s2" "tel ?y' = tel y1"
      using g assms(2) by (simp_all add: runOnce_def Let_def on_store_def y1_def)
    then show ?thesis using e1 e2 Inl that [of "abs (st y1)"] by simp
  next
    case (Inr res)
    have tel: "tel ?y' = RetentionPurge (rc_Events rc) (Cutoff res) (Purged res) (RetainedUnderHold res) (tel y1)"
      and st: "st ?y' = (if 0 < rc_VerifyRetentionDays rc then s3 else s2)"
      using g v assms(2) Inr
      by (auto simp: runOnce_def Let_def on_store_def y1_def [symmetric] sweep_evidence_def split: sum.splits)
    have "tel_extends (tel y) (tel ?y')"
      unfolding tel using e1 event_extends(4) tel_extends_trans by blast
    moreover have "log (abs (st ?y')) = log (spec_purge (Period (now (clk 0) - rc_Window rc)) (abs (st y1)))"
      "cps (abs (st ?y')) = cps (abs (st y1))" "held (abs (st ?y')) = held (abs (st y1))" "inv (st ?y')"
      "evidence (abs (st ?y')) \<in> {evidence (abs (st y1)),
         evidence (spec_sweep (now (clk 1) - rc_VerifyRetentionDays rc * day_ns) (abs (st y1)))}"
      using e1 e2 e3 Inr st by (auto simp: spec_purge_frame spec_sweep_def split: sum.splits)
    ultimately show ?thesis using that [of "abs (st y1)"] e1 by simp
  qed
qed

end

text \<open>On a store that does not fail, a sweep is exactly: a checkpoint for every pending period, then
  the purge, then the sweep of the evidence.\<close>

context reliable_store
begin

lemma checkpoint_period_done:
  assumes "inv (st y)" and "rc_Store rc = S"
  shows "fst (checkpoint_period rc w p y) = None"
proof (cases "SealsForPeriod S p (st y)")
  case (Pair sres s1)
  then obtain xs n where r: "sres = Inr (xs, n)"
    using seals_total [OF assms(1), of p] by (cases sres) auto
  have "inv s1" using seals_law [OF assms(1) Pair] ..
  from save_total [OF this] show ?thesis
    using Pair r assms(2) by (auto simp: checkpoint_period_def on_store_def split: sum.splits prod.splits) (metis fst_conv isl_def)
qed

lemma checkpoint_period_dom:
  assumes "inv (st y)" and "rc_Store rc = S" and "checkpoint_period rc w p y = (res, y')"
  shows "dom (cps (abs (st y'))) = insert p (dom (cps (abs (st y))))"
proof (cases "SealsForPeriod S p (st y)")
  case (Pair sres s1)
  then obtain xs n where r: "sres = Inr (xs, n)"
    using seals_total [OF assms(1), of p] by (cases sres) auto
  have s1: "inv s1" "abs s1 = abs (st y)" using seals_law [OF assms(1) Pair] by auto
  define cp where "cp = \<lparr>CpPeriod = p, RowCount = n, CpSeal = Checkpoint (rc_Sealer rc) xs n, SealedAt = 0\<rparr>"
  obtain cres s2 where save: "SaveCheckpoint S w cp s1 = (cres, s2)" by force
  then obtain b where b: "cres = Inr b" using save_total [OF s1(1), of w cp] by (cases cres) auto
  have "st y' = s2"
    using assms(2,3) Pair r save b by (auto simp: checkpoint_period_def on_store_def cp_def split: if_splits)
  moreover obtain t where "abs s2 = spec_save (cp\<lparr>SealedAt := t\<rparr>) (abs s1)"
    using save_law [OF s1(1) save] b by auto
  ultimately show ?thesis by (simp add: spec_save_simps s1(2)) (simp add: cp_def)
qed

lemma checkpoint_all_dom:
  assumes "inv (st y)" and "rc_Store rc = S"
  shows "dom (cps (abs (st (checkpoint_all rc clk i ps y)))) = set ps \<union> dom (cps (abs (st y)))"
  using assms(1)
proof (induction ps arbitrary: i y)
  case Nil
  then show ?case by simp
next
  case (Cons p ps)
  obtain y1 where c: "checkpoint_period rc (clk i) p y = (None, y1)"
    using checkpoint_period_done [OF Cons.prems assms(2), of "clk i" p] by (cases "checkpoint_period rc (clk i) p y") auto
  then show ?case
    using Cons.IH [of y1 "i + 1"] checkpoint_period_effect [OF Cons.prems assms(2) c]
      checkpoint_period_dom [OF Cons.prems assms(2) c] by simp
qed

lemma seal_pending_dom:
  assumes "inv (st y)" and "rc_Store rc = S"
  shows "dom (cps (abs (st (seal_pending rc clk y)))) =
    spec_pending (Period (now (clk 0))) (abs (st y)) \<union> dom (cps (abs (st y)))"
proof (cases "PendingCheckpointPeriods S (Period (now (clk 0))) (st y)")
  case (Pair res s)
  note p = pending_law [OF assms(1) Pair]
  obtain ps where ps: "res = Inr ps"
    using pending_total [OF assms(1)] Pair by (metis fst_conv isl_def obj_sumE)
  show ?thesis
    using checkpoint_all_dom [of "y\<lparr>st := s\<rparr>" rc clk 2 ps] p Pair ps assms(2)
    by (simp add: seal_pending_def on_store_def)
qed

lemma runOnce_exact:
  assumes "inv (st y)" and "rc_Store rc = S"
  obtains \<sigma> where "sealed_by (rc_Sealer rc) (abs (st y)) \<sigma>"
    and "dom (cps \<sigma>) = spec_pending (Period (now (clk 0))) (abs (st y)) \<union> dom (cps (abs (st y)))"
    and "inv (st (runOnce rc clk y))"
    and "abs (st (runOnce rc clk y)) =
      (if 0 < rc_VerifyRetentionDays rc
       then spec_sweep (now (clk 1) - rc_VerifyRetentionDays rc * day_ns)
              (spec_purge (Period (now (clk 0) - rc_Window rc)) \<sigma>)
       else spec_purge (Period (now (clk 0) - rc_Window rc)) \<sigma>)"
proof -
  define y1 where "y1 = seal_pending rc clk y"
  note e1 = seal_pending_effect [OF assms, of clk, folded y1_def]
  obtain gres s2 where g: "PurgeExpired S (Period (now (clk 0) - rc_Window rc)) (st y1) = (gres, s2)" by force
  note e2 = purge_law [OF conjunct1 [OF e1] g]
  obtain vres s3 where v: "SweepVerifyExpired S (clk 1) (rc_VerifyRetentionDays rc) s2 = (vres, s3)" by force
  note e3 = sweep_law [OF conjunct1 [OF e2] v]
  obtain gr where gr: "gres = Inr gr" using purge_total [OF conjunct1 [OF e1]] g by (metis fst_conv isl_def obj_sumE)
  obtain vr where vr: "vres = Inr vr" using sweep_total [OF conjunct1 [OF e2]] v by (metis fst_conv isl_def obj_sumE)
  have "st (runOnce rc clk y) = (if 0 < rc_VerifyRetentionDays rc then s3 else s2)"
    using g v gr vr assms(2)
    by (simp add: runOnce_def Let_def on_store_def y1_def [symmetric] sweep_evidence_def)
  then show ?thesis
    using e1 e2 e3 gr vr that [of "abs (st y1)"] seal_pending_dom [OF assms, of clk, folded y1_def] by simp
qed

end

end
