(* ===== verification/Task.thy ===== *)
theory Task
  imports Retention
begin

text \<open>
  The life cycle of the retention task (\<^verbatim>\<open>Start\<close>, \<^verbatim>\<open>Stop\<close> and the goroutine
  between them, \<^verbatim>\<open>tasks/retention.go\<close>), as a state machine. The actions are the points at
  which the goroutine, the ticker and a caller of \<^verbatim>\<open>Stop\<close> interleave: a ticker's channel
  holds one tick and drops further ones, \<^verbatim>\<open>ticker.Stop\<close> does not drain it, and the
  unbuffered \<^verbatim>\<open>stop\<close> channel makes \<^verbatim>\<open>Stop\<close> wait until the loop is at its select.
  As the framework does, one caller starts and stops the task, and starts it again only after it
  was stopped. A tick that is in the channel when the ticker stops can still be received; newer
  runtimes drop it, and every run they allow is a run of this machine.
\<close>

datatype loop_state = NotStarted | Sweeping | Selecting | Returned
datatype ticker_state = NilTicker | Ticking | Halted

record 's retentionTask =
  loop :: loop_state
  ticker :: ticker_state
  buffered :: bool
  sending :: bool
  panicked :: bool
  task_sys :: "'s sys"

definition NewRetentionTask :: "'s sys \<Rightarrow> 's retentionTask" where
  "NewRetentionTask y =
     \<lparr>loop = NotStarted, ticker = NilTicker, buffered = False, sending = False, panicked = False, task_sys = y\<rparr>"

definition Name :: string where "Name = ''access-audit-retention''"

text \<open>\<open>Start\<close> makes the stop channel, the ticker (which panics on an interval that is not
  positive) and the goroutine; \<open>StopCall\<close> is \<^verbatim>\<open>Stop\<close> up to its send, \<open>Handshake\<close> the
  send received at the select together with the rest of \<^verbatim>\<open>Stop\<close>.\<close>

datatype action = StartCall | Fire | Sweep "nat \<Rightarrow> world" | Tick | StopCall | Handshake

fun act :: "('s, 'a, 'r) RetentionConfig \<Rightarrow> action \<Rightarrow> 's retentionTask \<Rightarrow> 's retentionTask option" where
  "act rc StartCall t =
     (if ticker t = NilTicker \<and> \<not> panicked t then
        Some (if 0 < rc_Interval rc then t\<lparr>loop := Sweeping, ticker := Ticking, buffered := False\<rparr>
              else t\<lparr>panicked := True\<rparr>)
      else None)"
| "act rc Fire t = (if ticker t = Ticking then Some (t\<lparr>buffered := True\<rparr>) else None)"
| "act rc (Sweep clk) t =
     (if loop t = Sweeping then Some (t\<lparr>loop := Selecting, task_sys := runOnce rc clk (task_sys t)\<rparr>) else None)"
| "act rc Tick t =
     (if loop t = Selecting \<and> buffered t then Some (t\<lparr>loop := Sweeping, buffered := False\<rparr>) else None)"
| "act rc StopCall t =
     (case ticker t of
        NilTicker \<Rightarrow> Some t
      | Ticking \<Rightarrow> Some (t\<lparr>ticker := Halted, sending := True\<rparr>)
      | Halted \<Rightarrow> None)"
| "act rc Handshake t =
     (if loop t = Selecting \<and> sending t then Some (t\<lparr>loop := Returned, sending := False, ticker := NilTicker\<rparr>)
      else None)"

inductive task_reachable :: "('s, 'a, 'r) RetentionConfig \<Rightarrow> 's sys \<Rightarrow> 's retentionTask \<Rightarrow> bool" for rc y where
  new: "task_reachable rc y (NewRetentionTask y)"
| step: "task_reachable rc y t \<Longrightarrow> act rc a t = Some t' \<Longrightarrow> task_reachable rc y t'"

fun run :: "('s, 'a, 'r) RetentionConfig \<Rightarrow> action list \<Rightarrow> 's retentionTask \<Rightarrow> 's retentionTask option" where
  "run rc [] t = Some t"
| "run rc (a # as) t = (case act rc a t of None \<Rightarrow> None | Some t' \<Rightarrow> run rc as t')"

section \<open>Invariant and the stop handshake\<close>

definition task_inv :: "'s retentionTask \<Rightarrow> bool" where
  "task_inv t \<longleftrightarrow>
     (sending t \<longleftrightarrow> ticker t = Halted) \<and>
     (ticker t = NilTicker \<longleftrightarrow> loop t \<in> {NotStarted, Returned}) \<and>
     (panicked t \<longrightarrow> ticker t = NilTicker)"

lemma act_inv: "act rc a t = Some t' \<Longrightarrow> task_inv t \<Longrightarrow> task_inv t'"
  by (cases a; cases "ticker t") (auto simp: task_inv_def split: if_splits)

lemma task_reachable_inv: "task_reachable rc y t \<Longrightarrow> task_inv t"
proof (induction rule: task_reachable.induct)
  case new
  then show ?case by (simp add: task_inv_def NewRetentionTask_def)
next
  case step
  then show ?case by (blast intro: act_inv)
qed

text \<open>How many actions a pending stop still waits for.\<close>

definition stop_measure :: "'s retentionTask \<Rightarrow> nat" where
  "stop_measure t = (if sending t then 1 + (if loop t = Sweeping then 1 else 0) + (if buffered t then 2 else 0) else 0)"

lemma stopping_act:
  assumes "task_inv t" and "sending t" and "act rc a t = Some t'"
  shows "stop_measure t' < stop_measure t" and "sending t' \<or> loop t' = Returned"
  using assms by (cases a; auto simp: task_inv_def stop_measure_def split: if_splits)+

lemma stopping_enabled:
  assumes "task_inv t" and "sending t"
  shows "\<exists>a t'. act rc a t = Some t'"
proof (cases "loop t")
  case Sweeping
  then have "act rc (Sweep clk) t \<noteq> None" for clk by simp
  then show ?thesis by blast
next
  case Selecting
  then have "act rc Handshake t \<noteq> None" using assms(2) by simp
  then show ?thesis by blast
qed (use assms in \<open>auto simp: task_inv_def\<close>)

lemma run_inv: "run rc as t = Some t' \<Longrightarrow> task_inv t \<Longrightarrow> task_inv t'"
  by (induction as arbitrary: t) (auto split: option.splits intro: act_inv)

text \<open>While a stop is pending at every point, the run is shorter than the measure.\<close>

lemma stopping_run:
  assumes "task_inv t" and "sending t" and "run rc as t = Some t'" and "stop_measure t \<le> length as"
  shows "\<exists>k t''. k \<le> length as \<and> run rc (take k as) t = Some t'' \<and> loop t'' = Returned \<and> \<not> sending t''"
  using assms
proof (induction as arbitrary: t)
  case Nil
  then show ?case by (simp add: stop_measure_def)
next
  case (Cons a as)
  then obtain t1 where t1: "act rc a t = Some t1" "run rc as t1 = Some t'" by (auto split: option.splits)
  note m = stopping_act [OF Cons.prems(1,2) t1(1)]
  show ?case
  proof (cases "sending t1")
    case True
    then obtain k t'' where "k \<le> length as" "run rc (take k as) t1 = Some t''" "loop t'' = Returned" "\<not> sending t''"
      using Cons.IH [of t1] act_inv [OF t1(1) Cons.prems(1)] t1(2) m(1) Cons.prems(4) by auto
    then show ?thesis using t1(1) by (intro exI [of _ "Suc k"] exI [of _ t'']) simp
  next
    case False
    then show ?thesis using m(2) t1(1) by (intro exI [of _ 1] exI [of _ t1]) simp
  qed
qed

lemma no_panic: "task_reachable rc y t \<Longrightarrow> 0 < rc_Interval rc \<Longrightarrow> \<not> panicked t"
proof (induction rule: task_reachable.induct)
  case new
  then show ?case by (simp add: NewRetentionTask_def)
next
  case (step t a t')
  then show ?case by (cases a; cases "ticker t") (auto split: if_splits)
qed

text \<open>The system only changes by whole sweeps, one at a time.\<close>

lemma act_sys: "act rc a t = Some t' \<Longrightarrow> task_sys t' = task_sys t \<or> (\<exists>clk. task_sys t' = runOnce rc clk (task_sys t))"
  by (cases a; cases "ticker t") (auto split: if_splits)

section \<open>Properties\<close>

text \<open>C18: \<^verbatim>\<open>Stop\<close> returns. From any reachable state in which it waits to hand over the stop signal,
  some action is always possible, and any four actions in a row contain the handover, after which
  the goroutine has returned: at most the running sweep and one for a buffered tick come before.\<close>

theorem stop_returns:
  assumes "task_reachable rc y t" and "sending t"
  shows "(\<exists>a t'. act rc a t = Some t') \<and>
    (\<forall>as t'. length as = 4 \<longrightarrow> run rc as t = Some t' \<longrightarrow>
       (\<exists>k t''. k \<le> 4 \<and> run rc (take k as) t = Some t'' \<and> loop t'' = Returned \<and> \<not> sending t''))"
proof -
  have i: "task_inv t" using assms(1) by (rule task_reachable_inv)
  have "stop_measure t \<le> 4" by (simp add: stop_measure_def)
  then show ?thesis using stopping_enabled [OF i assms(2)] stopping_run [OF i assms(2), of rc] by fastforce
qed

definition sample_rc :: "((string, string) Memory, string, string) RetentionConfig" where
  "sample_rc = \<lparr>rc_Store = memory_store, rc_Sealer = sample_sealer, rc_Events = None, rc_Interval = 1, rc_Window = 0,
     rc_VerifyRetentionDays = 0, rc_Logger = False\<rparr>"

definition sample_sys :: "(string, string) Memory sys" where
  "sample_sys = \<lparr>st = NewMemory, tel = \<lparr>emitted = [], emit_failures = []\<rparr>, logs = []\<rparr>"

theorem stop_returns_witness:
  "\<exists>t. task_reachable sample_rc sample_sys t \<and> sending t \<and> (\<exists>a t'. act sample_rc a t = Some t')"
proof -
  let ?t0 = "NewRetentionTask sample_sys"
  let ?t1 = "?t0\<lparr>loop := Sweeping, ticker := Ticking, buffered := False\<rparr>"
  let ?t2 = "?t1\<lparr>ticker := Halted, sending := True\<rparr>"
  have "act sample_rc StartCall ?t0 = Some ?t1" by (simp add: NewRetentionTask_def sample_rc_def)
  then have "task_reachable sample_rc sample_sys ?t1" by (rule task_reachable.step [OF task_reachable.new])
  moreover have "act sample_rc StopCall ?t1 = Some ?t2" by simp
  ultimately have r: "task_reachable sample_rc sample_sys ?t2" by (rule task_reachable.step)
  have s: "sending ?t2" by simp
  from stop_returns [OF r s] r s show ?thesis by blast
qed

text \<open>C36: a sweep whose listing of the pending periods fails reports the error and purges all the same,
  so rows of expired periods that were never sealed are deleted.\<close>

theorem sweep_purges_after_listing_error:
  assumes "PendingCheckpointPeriods (rc_Store rc) (Period (now (clk 0))) (st y) = (Inl err, s1)"
    and "PurgeExpired (rc_Store rc) (Period (now (clk 0) - rc_Window rc)) s1 = (Inr res, s2)"
    and "rc_Logger rc"
  shows "st (runOnce rc clk y) =
      (if 0 < rc_VerifyRetentionDays rc then snd (SweepVerifyExpired (rc_Store rc) (clk 1) (rc_VerifyRetentionDays rc) s2) else s2) \<and>
    LogError ''retention: list pending checkpoints'' \<in> set (logs (runOnce rc clk y))"
  using assms
  by (auto simp: runOnce_def seal_pending_def on_store_def Let_def sweep_evidence_def log_line_def on_tel_def
      split: prod.splits sum.splits)

theorem sweep_purges_after_listing_error_witness:
  "let rc = sample_rc\<lparr>rc_Store := memory_store\<lparr>PendingCheckpointPeriods := (\<lambda>b s. (Inl (StoreError ''down''), s))\<rparr>, rc_Logger := True\<rparr>
   in records (st (runOnce rc (\<lambda>i. sample_world) (sample_sys\<lparr>st := sample_memory\<rparr>))) = []"
proof -
  let ?rc = "sample_rc\<lparr>rc_Store := memory_store\<lparr>PendingCheckpointPeriods := (\<lambda>b s. (Inl (StoreError ''down''), s))\<rparr>, rc_Logger := True\<rparr>"
  let ?cut = "Period (now sample_world)"
  obtain res where p: "mem_PurgeExpired ?cut sample_memory = (Inr res, snd (mem_PurgeExpired ?cut sample_memory))"
    using mem_ops_total(1) by blast
  have c: "?cut = ''2024-12-01''" by (simp add: sample_world_def)
  have "st (runOnce ?rc (\<lambda>i. sample_world) (sample_sys\<lparr>st := sample_memory\<rparr>)) = snd (mem_PurgeExpired ?cut sample_memory)"
    using sweep_purges_after_listing_error [of ?rc "\<lambda>i. sample_world" "sample_sys\<lparr>st := sample_memory\<rparr>"] p
    by (simp add: sample_rc_def)
  then show ?thesis
    by (simp add: c mem_PurgeExpired_def sample_memory_eq Let_def)
qed

end
