(* ===== verification/Go_Decode.thy ===== *)
theory Go_Decode
  imports Go_Json Go_Time
begin

text \<open>
  \<^verbatim>\<open>encoding/json\<close> as the PostgreSQL store uses it: the trees it writes and reads, with
  numbers as their literals (\<open>wire\<close>), the text of a tree, the parser, and the decoding of trees
  into struct fields (names match exactly or up to case folding, null leaves a field at its zero
  value, another type is an error). Invalid UTF-8 in a string reads as U+FFFD. The parser's fuel
  is twice the length of the text, which every nested value and separator pays for. Go's limit of
  10000 on the nesting depth is not modelled. The main lemma: parsing inverts rendering.
\<close>

section \<open>Trees\<close>

datatype wire = WNull | WBool bool | WNum string | WStr string | WArr "wire list" | WObj "(string \<times> wire) list"

definition wire_int :: "int \<Rightarrow> wire" where
  "wire_int n = WNum (appendInt n 0)"

text \<open>A Go map is written with its keys in order.\<close>

definition wire_map :: "(string \<times> wire) list \<Rightarrow> wire" where
  "wire_map kvs = WObj (sort_key fst kvs)"

fun render_wire :: "wire \<Rightarrow> string" where
  "render_wire WNull = ''null''"
| "render_wire (WBool b) = (if b then ''true'' else ''false'')"
| "render_wire (WNum l) = l"
| "render_wire (WStr s) = quote s"
| "render_wire (WArr vs) = CHR ''['' # join (map render_wire vs) @ '']''"
| "render_wire (WObj kvs) = CHR ''{'' # join (map (\<lambda>(k, v). quote k @ CHR '':'' # render_wire v) kvs) @ ''}''"

section \<open>The parser\<close>

definition is_ws :: "char \<Rightarrow> bool" where
  "is_ws c \<longleftrightarrow> c = CHR '' '' \<or> c = CHR 0x09 \<or> c = CHR 0x0A \<or> c = CHR 0x0D"

definition skip_ws :: "string \<Rightarrow> string" where
  "skip_ws s = dropWhile is_ws s"

text \<open>The value of the literal: bytes that are not UTF-8 are replaced.\<close>

definition parse_string :: "string \<Rightarrow> (string \<times> string) option" where
  "parse_string s = (case string_bytes s of None \<Rightarrow> None | Some (b, r) \<Rightarrow> Some (string_of_runes (runes b), r))"

text \<open>The literal of a number.\<close>

definition take_digits :: "string \<Rightarrow> string \<times> string" where
  "take_digits s = (takeWhile is_digit s, dropWhile is_digit s)"

definition take_sign :: "string \<Rightarrow> string \<Rightarrow> string \<times> string" where
  "take_sign signs s = (case s of c # r \<Rightarrow> if c \<in> set signs then ([c], r) else ([], s) | [] \<Rightarrow> ([], []))"

definition take_int :: "string \<Rightarrow> (string \<times> string) option" where
  "take_int s =
     (case s of
        [] \<Rightarrow> None
      | c # r \<Rightarrow> if c = CHR ''0'' then Some ([c], r) else if is_digit c then Some (take_digits s) else None)"

definition take_frac :: "string \<Rightarrow> (string \<times> string) option" where
  "take_frac s =
     (case s of
        c # r \<Rightarrow>
          if c = CHR ''.''
          then (case take_digits r of (ds, r') \<Rightarrow> if ds = [] then None else Some (c # ds, r'))
          else Some ([], s)
      | [] \<Rightarrow> Some ([], s))"

definition take_exp :: "string \<Rightarrow> (string \<times> string) option" where
  "take_exp s =
     (case s of
        c # r \<Rightarrow>
          if c = CHR ''e'' \<or> c = CHR ''E''
          then (case take_sign ''+-'' r of (sg, r') \<Rightarrow>
                (case take_digits r' of (ds, r'') \<Rightarrow> if ds = [] then None else Some (c # sg @ ds, r'')))
          else Some ([], s)
      | [] \<Rightarrow> Some ([], s))"

definition take_number :: "string \<Rightarrow> (string \<times> string) option" where
  "take_number s =
     (case take_sign ''-'' s of (sg, s') \<Rightarrow>
      do { (i, r1) \<leftarrow> take_int s'; (f, r2) \<leftarrow> take_frac r1; (e, r3) \<leftarrow> take_exp r2; Some (sg @ i @ f @ e, r3) })"

definition strip_prefix :: "string \<Rightarrow> string \<Rightarrow> string option" where
  "strip_prefix p s = (if take (length p) s = p then Some (drop (length p) s) else None)"

definition parse_literal :: "string \<Rightarrow> (wire \<times> string) option" where
  "parse_literal s =
     (case strip_prefix ''true'' s of Some r \<Rightarrow> Some (WBool True, r)
      | None \<Rightarrow> (case strip_prefix ''false'' s of Some r \<Rightarrow> Some (WBool False, r)
      | None \<Rightarrow> (case strip_prefix ''null'' s of Some r \<Rightarrow> Some (WNull, r)
      | None \<Rightarrow> (case take_number s of Some (l, r) \<Rightarrow> Some (WNum l, r) | None \<Rightarrow> None))))"

fun parse_value :: "nat \<Rightarrow> string \<Rightarrow> (wire \<times> string) option"
  and parse_elems :: "nat \<Rightarrow> string \<Rightarrow> (wire list \<times> string) option"
  and parse_members :: "nat \<Rightarrow> string \<Rightarrow> ((string \<times> wire) list \<times> string) option" where
  "parse_value 0 s = None"
| "parse_value (Suc n) s =
     (case skip_ws s of
        [] \<Rightarrow> None
      | c # r \<Rightarrow>
          if c = CHR ''{'' then
            (if skip_ws r \<noteq> [] \<and> hd (skip_ws r) = CHR ''}'' then Some (WObj [], tl (skip_ws r))
             else do { (kvs, r') \<leftarrow> parse_members n r; Some (WObj kvs, r') })
          else if c = CHR ''['' then
            (if skip_ws r \<noteq> [] \<and> hd (skip_ws r) = CHR '']'' then Some (WArr [], tl (skip_ws r))
             else do { (vs, r') \<leftarrow> parse_elems n r; Some (WArr vs, r') })
          else if c = dquote then do { (s, r') \<leftarrow> parse_string r; Some (WStr s, r') }
          else parse_literal (c # r))"
| "parse_elems 0 s = None"
| "parse_elems (Suc n) s =
     do { (v, r) \<leftarrow> parse_value n s;
          case skip_ws r of
            [] \<Rightarrow> None
          | c # r' \<Rightarrow>
              if c = CHR '']'' then Some ([v], r')
              else if c = CHR '','' then do { (vs, r'') \<leftarrow> parse_elems n r'; Some (v # vs, r'') }
              else None }"
| "parse_members 0 s = None"
| "parse_members (Suc n) s =
     (case skip_ws s of
        [] \<Rightarrow> None
      | q # s1 \<Rightarrow>
          if q \<noteq> dquote then None
          else do { (k, s2) \<leftarrow> parse_string s1;
                    case skip_ws s2 of
                      [] \<Rightarrow> None
                    | p # s3 \<Rightarrow>
                        if p \<noteq> CHR '':'' then None
                        else do { (v, r) \<leftarrow> parse_value n s3;
                                  case skip_ws r of
                                    [] \<Rightarrow> None
                                  | c # r' \<Rightarrow>
                                      if c = CHR ''}'' then Some ([(k, v)], r')
                                      else if c = CHR '','' then do { (kvs, r'') \<leftarrow> parse_members n r'; Some ((k, v) # kvs, r'') }
                                      else None } })"

definition Unmarshal :: "string \<Rightarrow> wire option" where
  "Unmarshal s =
     (case parse_value (2 * length s + 2) s of
        None \<Rightarrow> None
      | Some (v, r) \<Rightarrow> if skip_ws r = [] then Some v else None)"

section \<open>Decoding into struct fields\<close>

text \<open>A key belongs to the field whose name it equals up to case: \<^verbatim>\<open>foldName\<close> maps ASCII
  letters to upper case, and beyond ASCII only U+017F and U+212A fold to an ASCII letter (S and K),
  which is all that matters for the ASCII names of this program.\<close>

definition fold_rune :: "nat \<Rightarrow> nat" where
  "fold_rune r = (if 97 \<le> r \<and> r \<le> 122 then r - 32 else if r = 383 then 83 else if r = 8490 then 75 else r)"

definition fold_name :: "string \<Rightarrow> nat list" where
  "fold_name k = map fold_rune (runes k)"

definition field_values :: "string \<Rightarrow> (string \<times> wire) list \<Rightarrow> wire list" where
  "field_values name kvs = map snd (filter (\<lambda>kv. fold_name (fst kv) = fold_name name) kvs)"

text \<open>A decoder takes a value and the old content of its target; \<open>None\<close> is an error. All the
  values of a field are decoded in turn.\<close>

type_synonym 'b decoder = "wire \<Rightarrow> 'b \<Rightarrow> 'b option"

fun decode_all :: "'b decoder \<Rightarrow> wire list \<Rightarrow> 'b \<Rightarrow> 'b option" where
  "decode_all dec [] x = Some x"
| "decode_all dec (v # vs) x = do { y \<leftarrow> dec v x; decode_all dec vs y }"

definition decode_field :: "'b decoder \<Rightarrow> string \<Rightarrow> (string \<times> wire) list \<Rightarrow> 'b \<Rightarrow> 'b option" where
  "decode_field dec name kvs x = decode_all dec (field_values name kvs) x"

definition decode_struct :: "((string \<times> wire) list \<Rightarrow> 'b \<Rightarrow> 'b option) \<Rightarrow> 'b decoder" where
  "decode_struct fields v x = (case v of WNull \<Rightarrow> Some x | WObj kvs \<Rightarrow> fields kvs x | _ \<Rightarrow> None)"

definition decode_string :: "string decoder" where
  "decode_string v x = (case v of WNull \<Rightarrow> Some x | WStr s \<Rightarrow> Some s | _ \<Rightarrow> None)"

definition decode_bool :: "bool decoder" where
  "decode_bool v x = (case v of WNull \<Rightarrow> Some x | WBool b \<Rightarrow> Some b | _ \<Rightarrow> None)"

text \<open>An \<^verbatim>\<open>int\<close> or \<^verbatim>\<open>int64\<close> takes an integer literal within 64 bits.\<close>

definition parse_int64 :: "string \<Rightarrow> int option" where
  "parse_int64 l =
     (case take_sign ''-'' l of (sg, ds) \<Rightarrow>
        if ds = [] \<or> \<not> list_all is_digit ds then None
        else let n = (if sg = [] then int (number ds) else - int (number ds))
             in if - (2 ^ 63) \<le> n \<and> n < 2 ^ 63 then Some n else None)"

definition decode_int64 :: "int decoder" where
  "decode_int64 v x = (case v of WNull \<Rightarrow> Some x | WNum l \<Rightarrow> parse_int64 l | _ \<Rightarrow> None)"

text \<open>\<^verbatim>\<open>time.Time\<close> reads an RFC 3339 string, \<^verbatim>\<open>json.RawMessage\<close> keeps any value, null included
  (\<open>None\<close> is the nil message, an absent field).\<close>

definition decode_time :: "time decoder" where
  "decode_time v x = (case v of WNull \<Rightarrow> Some x | WStr s \<Rightarrow> parse_rfc3339 s | _ \<Rightarrow> None)"

definition decode_raw :: "wire option decoder" where
  "decode_raw v x = Some (Some v)"

text \<open>A slice is nil for null, otherwise its elements are decoded into zero values.\<close>

fun decode_elems :: "'b decoder \<Rightarrow> 'b \<Rightarrow> wire list \<Rightarrow> 'b list option" where
  "decode_elems dec zero [] = Some []"
| "decode_elems dec zero (v # vs) = do { x \<leftarrow> dec v zero; xs \<leftarrow> decode_elems dec zero vs; Some (x # xs) }"

definition decode_list :: "'b decoder \<Rightarrow> 'b \<Rightarrow> 'b list decoder" where
  "decode_list dec zero v x = (case v of WNull \<Rightarrow> Some [] | WArr vs \<Rightarrow> decode_elems dec zero vs | _ \<Rightarrow> None)"

text \<open>A pointer is nil for null, otherwise it points to the decoded value.\<close>

definition decode_ptr :: "'b decoder \<Rightarrow> 'b \<Rightarrow> 'b option decoder" where
  "decode_ptr dec zero v x =
     (case v of
        WNull \<Rightarrow> Some None
      | _ \<Rightarrow> (case dec v (case x of None \<Rightarrow> zero | Some y \<Rightarrow> y) of None \<Rightarrow> None | Some y \<Rightarrow> Some (Some y)))"

text \<open>\<^verbatim>\<open>json.Unmarshal\<close> of a message into a zero value; the nil message is an empty text.\<close>

definition unmarshal_raw :: "'b decoder \<Rightarrow> 'b \<Rightarrow> wire option \<Rightarrow> 'b option" where
  "unmarshal_raw dec zero m = (case m of None \<Rightarrow> None | Some v \<Rightarrow> dec v zero)"

section \<open>Parsing inverts rendering\<close>

fun wire_ok :: "wire \<Rightarrow> bool" where
  "wire_ok (WNum l) \<longleftrightarrow> take_number l = Some (l, [])"
| "wire_ok (WStr s) \<longleftrightarrow> valid_utf8 s"
| "wire_ok (WArr vs) \<longleftrightarrow> (\<forall>v \<in> set vs. wire_ok v)"
| "wire_ok (WObj kvs) \<longleftrightarrow> (\<forall>(k, v) \<in> set kvs. valid_utf8 k \<and> wire_ok v)"
| "wire_ok _ \<longleftrightarrow> True"

declare parse_value.simps(2) [simp del] parse_elems.simps(2) [simp del] parse_members.simps(2) [simp del]

lemma skip_ws_Cons [simp]: "\<not> is_ws c \<Longrightarrow> skip_ws (c # r) = c # r"
  by (simp add: skip_ws_def)

lemma not_ws [simp]: "\<not> is_ws (CHR ''{'')" "\<not> is_ws (CHR ''['')" "\<not> is_ws (CHR ''}'')" "\<not> is_ws (CHR '']'')"
  "\<not> is_ws dquote" "\<not> is_ws (CHR '':'')" "\<not> is_ws (CHR '','')"
  by (simp_all add: is_ws_def)

lemma stop_not_digit: "stop r \<Longrightarrow> r = [] \<or> \<not> is_digit (hd r)"
  by (auto simp: stop_def is_digit_def)

lemma take_digits_append:
  assumes "stop r" and "take_digits s = (ds, q)"
  shows "take_digits (s @ r) = (ds, q @ r)"
proof -
  have "takeWhile is_digit (s @ r) = takeWhile is_digit s \<and> dropWhile is_digit (s @ r) = dropWhile is_digit s @ r"
    using stop_not_digit [OF assms(1)] by (induction s) (cases r, simp_all)
  with assms(2) show ?thesis by (simp add: take_digits_def)
qed

lemma take_int_append: "stop r \<Longrightarrow> take_int s = Some (i, q) \<Longrightarrow> take_int (s @ r) = Some (i, q @ r)"
  using take_digits_append [of r s] by (cases s) (auto simp: take_int_def split: if_splits)

lemma take_frac_append: "stop r \<Longrightarrow> take_frac s = Some (i, q) \<Longrightarrow> take_frac (s @ r) = Some (i, q @ r)"
  using take_digits_append [of r "tl s"]
  by (cases s; cases r) (auto simp: take_frac_def stop_def split: if_splits prod.splits)

lemma take_sign_append:
  "stop r \<Longrightarrow> set signs \<subseteq> {CHR ''+'', CHR ''-''} \<Longrightarrow> take_sign signs s = (sg, q) \<Longrightarrow> take_sign signs (s @ r) = (sg, q @ r)"
  by (cases s; cases r) (auto simp: take_sign_def stop_def split: if_splits)

lemma take_exp_append: "stop r \<Longrightarrow> take_exp s = Some (i, q) \<Longrightarrow> take_exp (s @ r) = Some (i, q @ r)"
  using take_sign_append [of r "''+-''" "tl s"] take_digits_append [of r "snd (take_sign ''+-'' (tl s))"]
  by (cases s; cases r) (auto simp: take_exp_def stop_def split: if_splits prod.splits)

lemma take_number_append:
  assumes "stop r" and "take_number s = Some (i, q)"
  shows "take_number (s @ r) = Some (i, q @ r)"
proof -
  obtain sg s1 where sg: "take_sign ''-'' s = (sg, s1)" by fastforce
  with assms(2) obtain a r1 b r2 c where
    "take_int s1 = Some (a, r1)" "take_frac r1 = Some (b, r2)" "take_exp r2 = Some (c, q)" "i = sg @ a @ b @ c"
    by (auto simp: take_number_def bind_eq_Some_conv)
  then show ?thesis
    using take_sign_append [OF assms(1) _ sg] take_int_append [OF assms(1)] take_frac_append [OF assms(1)]
      take_exp_append [OF assms(1)]
    by (simp add: take_number_def)
qed

lemma take_number_start: "take_number s = Some (i, q) \<Longrightarrow> \<exists>c t. s = c # t \<and> (is_digit c \<or> c = CHR ''-'')"
  by (cases s) (auto simp: take_number_def take_sign_def take_int_def is_digit_def bind_eq_Some_conv split: if_splits)

lemma parse_literal_number:
  assumes "take_number s = Some (i, q)"
  shows "parse_literal s = Some (WNum i, q)"
proof -
  obtain c t where c: "s = c # t" "is_digit c \<or> c = CHR ''-''" using take_number_start [OF assms] by blast
  then have "c \<noteq> CHR ''t'' \<and> c \<noteq> CHR ''f'' \<and> c \<noteq> CHR ''n''" by (auto simp: is_digit_def)
  then show ?thesis using assms by (simp add: parse_literal_def strip_prefix_def c(1))
qed

lemma parse_string_quote: "valid_utf8 s \<Longrightarrow> parse_string (tl (quote s) @ r) = Some (s, r)"
  by (simp add: parse_string_def string_bytes_quote string_of_runes_runes)

definition reads_back :: "wire \<Rightarrow> bool" where
  "reads_back x \<longleftrightarrow>
     (\<forall>n r. length (render_wire x) \<le> n \<longrightarrow> stop r \<longrightarrow> parse_value n (render_wire x @ r) = Some (x, r))"

lemma render_wire_start:
  assumes "wire_ok x"
  shows "\<exists>c t. render_wire x = c # t \<and> \<not> is_ws c \<and> c \<notin> {CHR '','', CHR '']'', CHR ''}''}"
proof (cases x)
  case (WNum l)
  with assms have "take_number l = Some (l, [])" by simp
  then obtain c t where "l = c # t" "is_digit c \<or> c = CHR ''-''" using take_number_start by blast
  with WNum show ?thesis by (auto simp: is_ws_def is_digit_def)
next
  case (WStr s)
  then show ?thesis by (simp add: quote_def)
qed (auto simp: is_ws_def)

lemma parse_elems_join:
  assumes "xs \<noteq> []" and "\<forall>x \<in> set xs. reads_back x \<and> wire_ok x" and "length (join (map render_wire xs)) < n"
  shows "parse_elems n (join (map render_wire xs) @ CHR '']'' # r) = Some (xs, r)"
  using assms
proof (induction xs arbitrary: n)
  case (Cons x xs)
  then obtain m where n: "n = Suc m" by (cases n) auto
  show ?case
  proof (cases "xs = []")
    case True
    with Cons n show ?thesis by (simp add: parse_elems.simps(2) reads_back_def)
  next
    case False
    have "parse_value m (render_wire x @ CHR '','' # join (map render_wire xs) @ CHR '']'' # r) =
        Some (x, CHR '','' # join (map render_wire xs) @ CHR '']'' # r)"
      using Cons.prems n False by (simp add: reads_back_def join_Cons)
    moreover have "parse_elems m (join (map render_wire xs) @ CHR '']'' # r) = Some (xs, r)"
      using Cons.IH [of m] Cons.prems n False by (simp add: join_Cons)
    ultimately show ?thesis using False by (simp add: n join_Cons parse_elems.simps(2))
  qed
qed simp

abbreviation render_member :: "string \<times> wire \<Rightarrow> string" where
  "render_member \<equiv> \<lambda>(k, v). quote k @ CHR '':'' # render_wire v"

lemma parse_members_join:
  assumes "kvs \<noteq> []" and "\<forall>(k, v) \<in> set kvs. reads_back v \<and> wire_ok v \<and> valid_utf8 k"
    and "length (join (map render_member kvs)) < n"
  shows "parse_members n (join (map render_member kvs) @ CHR ''}'' # r) = Some (kvs, r)"
  using assms
proof (induction kvs arbitrary: n)
  case (Cons kv kvs)
  obtain k v where kv: "kv = (k, v)" by fastforce
  from Cons obtain m where n: "n = Suc m" by (cases n) auto
  have q: "quote k = dquote # tl (quote k)" by (simp add: quote_def)
  have k: "parse_string (tl (quote k) @ t) = Some (k, t)" for t
    using Cons.prems(2) kv by (simp add: parse_string_quote)
  define rest where "rest = (if kvs = [] then CHR ''}'' # r else CHR '','' # join (map render_member kvs) @ CHR ''}'' # r)"
  have v: "parse_value m (render_wire v @ rest) = Some (v, rest)"
    using Cons.prems kv n by (auto simp: reads_back_def rest_def join_Cons split: if_splits)
  have "join (map render_member (kv # kvs)) @ CHR ''}'' # r = dquote # tl (quote k) @ CHR '':'' # render_wire v @ rest"
    using q by (simp add: kv join_Cons rest_def)
  moreover have "kvs \<noteq> [] \<Longrightarrow> parse_members m (join (map render_member kvs) @ CHR ''}'' # r) = Some (kvs, r)"
    using Cons.IH [of m] Cons.prems n by (simp add: join_Cons)
  ultimately show ?case
    by (cases "kvs = []") (simp_all add: n kv parse_members.simps(2) k v, simp_all add: rest_def)
qed simp

text \<open>One step of \<open>parse_value\<close>, by the first character of the text.\<close>

lemma parse_value_cases:
  "parse_value (Suc m) (dquote # r) = do { (s, r') \<leftarrow> parse_string r; Some (WStr s, r') }"
  "\<not> is_ws c \<Longrightarrow> c \<notin> {CHR ''{'', CHR ''['', dquote} \<Longrightarrow> parse_value (Suc m) (c # r) = parse_literal (c # r)"
  "parse_value (Suc m) (CHR ''['' # CHR '']'' # r) = Some (WArr [], r)"
  "parse_value (Suc m) (CHR ''{'' # CHR ''}'' # r) = Some (WObj [], r)"
  "\<not> is_ws c \<Longrightarrow> c \<noteq> CHR '']'' \<Longrightarrow>
    parse_value (Suc m) (CHR ''['' # c # r) = do { (vs, r') \<leftarrow> parse_elems m (c # r); Some (WArr vs, r') }"
  "\<not> is_ws c \<Longrightarrow> c \<noteq> CHR ''}'' \<Longrightarrow>
    parse_value (Suc m) (CHR ''{'' # c # r) = do { (kvs, r') \<leftarrow> parse_members m (c # r); Some (WObj kvs, r') }"
  by (simp_all add: parse_value.simps(2))

lemma reads_backI:
  assumes "wire_ok x" and "\<And>m r. length (render_wire x) \<le> Suc m \<Longrightarrow> stop r \<Longrightarrow> parse_value (Suc m) (render_wire x @ r) = Some (x, r)"
  shows "reads_back x"
  unfolding reads_back_def
proof (intro allI impI)
  fix n r
  assume n: "length (render_wire x) \<le> n" and "stop r"
  then obtain m where "n = Suc m" using render_wire_start [OF assms(1)] by (cases n) auto
  with assms(2) n \<open>stop r\<close> show "parse_value n (render_wire x @ r) = Some (x, r)" by simp
qed

lemma reads_back_number:
  assumes "take_number l = Some (l, [])"
  shows "reads_back (WNum l)"
proof (rule reads_backI)
  fix m r
  assume "stop r"
  obtain c t where l: "l = c # t" "is_digit c \<or> c = CHR ''-''" using take_number_start [OF assms] by blast
  then have "\<not> is_ws c" "c \<notin> {CHR ''{'', CHR ''['', dquote}" by (auto simp: is_ws_def is_digit_def)
  then have "parse_value (Suc m) (l @ r) = parse_literal (l @ r)" by (simp add: l(1) parse_value_cases(2))
  then show "parse_value (Suc m) (render_wire (WNum l) @ r) = Some (WNum l, r)"
    using parse_literal_number [OF take_number_append [OF \<open>stop r\<close> assms]] by simp
qed (simp add: assms)

lemma parse_value_literal:
  assumes "c \<in> {CHR ''n'', CHR ''t'', CHR ''f''}"
  shows "parse_value (Suc m) (c # r) = parse_literal (c # r)"
  using assms by (intro parse_value_cases(2)) (auto simp: is_ws_def)

lemma reads_back_null: "reads_back WNull"
  by (rule reads_backI) (simp_all add: parse_value_literal parse_literal_def strip_prefix_def)

lemma reads_back_bool: "reads_back (WBool b)"
  by (rule reads_backI) (cases b; simp add: parse_value_literal parse_literal_def strip_prefix_def)+

lemma reads_back_array:
  assumes ok: "wire_ok (WArr vs)" and vs: "\<forall>v \<in> set vs. reads_back v"
  shows "reads_back (WArr vs)"
proof (rule reads_backI [OF ok])
  fix m r
  assume m: "length (render_wire (WArr vs)) \<le> Suc m"
  show "parse_value (Suc m) (render_wire (WArr vs) @ r) = Some (WArr vs, r)"
  proof (cases vs)
    case Nil
    then show ?thesis by (simp add: parse_value_cases(3))
  next
    case (Cons v ws)
    then obtain c t where c: "render_wire v = c # t" "\<not> is_ws c" "c \<noteq> CHR '']''" using render_wire_start [of v] ok by auto
    define t' where "t' = t @ (if ws = [] then [] else CHR '','' # join (map render_wire ws)) @ CHR '']'' # r"
    have t: "join (map render_wire vs) @ CHR '']'' # r = c # t'" by (simp add: Cons join_Cons c(1) t'_def)
    have "parse_elems m (join (map render_wire vs) @ CHR '']'' # r) = Some (vs, r)"
      using vs ok m Cons by (intro parse_elems_join) auto
    then show ?thesis unfolding render_wire.simps using c t by (simp add: parse_value_cases(5))
  qed
qed

lemma reads_back_object:
  assumes ok: "wire_ok (WObj kvs)" and kvs: "\<forall>(k, v) \<in> set kvs. reads_back v"
  shows "reads_back (WObj kvs)"
proof (rule reads_backI [OF ok])
  fix m r
  assume m: "length (render_wire (WObj kvs)) \<le> Suc m"
  show "parse_value (Suc m) (render_wire (WObj kvs) @ r) = Some (WObj kvs, r)"
  proof (cases kvs)
    case Nil
    then show ?thesis by (simp add: parse_value_cases(4))
  next
    case (Cons kv ws)
    obtain t where t: "join (map render_member kvs) @ CHR ''}'' # r = dquote # t"
      by (cases kv) (simp add: Cons join_Cons quote_def)
    have "parse_members m (join (map render_member kvs) @ CHR ''}'' # r) = Some (kvs, r)"
      using kvs ok m Cons by (intro parse_members_join) fastforce+
    then show ?thesis unfolding render_wire.simps using t by (simp add: parse_value_cases(6))
  qed
qed

lemma wire_reads_back: "wire_ok x \<Longrightarrow> reads_back x"
proof (induction x)
  case (WStr s)
  then show ?case
    by (intro reads_backI) (simp_all add: quote_def parse_value_cases(1) parse_string_quote [unfolded quote_def, simplified])
next
  case (WArr vs)
  then show ?case by (intro reads_back_array) simp_all
next
  case (WObj kvs)
  then show ?case by (intro reads_back_object) fastforce+
qed (simp_all add: reads_back_number reads_back_null reads_back_bool)

lemma Unmarshal_render: "wire_ok x \<Longrightarrow> Unmarshal (render_wire x) = Some x"
proof -
  assume "wire_ok x"
  then have "parse_value (2 * length (render_wire x) + 2) (render_wire x @ []) = Some (x, [])"
    by (intro wire_reads_back [unfolded reads_back_def, rule_format]) simp_all
  then show ?thesis by (simp add: Unmarshal_def skip_ws_def)
qed

section \<open>Decoding what was encoded\<close>

lemma zero_char: "CHR ''0'' = digit 0"
  by code_simp

lemma decimal_start: "0 < n \<Longrightarrow> hd (decimal n) \<noteq> CHR ''0''"
proof (induction n rule: decimal.induct)
  case (1 n)
  show ?case
  proof (cases "n < 10")
    case True
    with 1 show ?thesis by (simp add: decimal.simps [of n] zero_char)
  next
    case False
    with 1 show ?thesis by (simp add: decimal.simps [of n])
  qed
qed

lemma take_int_decimal: "take_int (decimal n) = Some (decimal n, [])"
proof (cases "n = 0")
  case True
  then show ?thesis by (simp add: decimal.simps take_int_def zero_char)
next
  case False
  then have h: "hd (decimal n) \<noteq> CHR ''0''" by (simp add: decimal_start)
  obtain c r where c: "decimal n = c # r" by (meson decimal_not_Nil neq_Nil_conv)
  have "\<forall>x \<in> set (c # r). is_digit x" using decimal_digits [of n] c by simp
  then have "takeWhile is_digit (c # r) = c # r" "dropWhile is_digit (c # r) = []" "is_digit c"
    by (simp_all add: takeWhile_eq_all_conv dropWhile_eq_Nil_conv del: takeWhile.simps dropWhile.simps)
  with h c show ?thesis by (simp add: take_int_def take_digits_def)
qed

lemma decimal_no_sign: "take_sign ''-'' (decimal n) = ([], decimal n)"
proof -
  obtain c r where c: "decimal n = c # r" by (meson decimal_not_Nil neq_Nil_conv)
  then have "is_digit c" using decimal_digits [of n] by simp
  then have "c \<noteq> CHR ''-''" by (auto simp: is_digit_def)
  then show ?thesis by (simp add: c take_sign_def)
qed

lemma wire_ok_int [simp]: "wire_ok (wire_int n)"
proof -
  have "take_number (decimal k) = Some (decimal k, [])" for k
    by (simp add: take_number_def decimal_no_sign take_int_decimal take_frac_def take_exp_def)
  moreover have "take_number (CHR ''-'' # decimal k) = Some (CHR ''-'' # decimal k, [])" for k
    by (simp add: take_number_def take_sign_def take_int_decimal take_frac_def take_exp_def)
  ultimately show ?thesis by (simp add: wire_int_def appendInt_def pad_def)
qed

lemma parse_int64_appendInt: "- (2 ^ 63) \<le> n \<Longrightarrow> n < 2 ^ 63 \<Longrightarrow> parse_int64 (appendInt n 0) = Some n"
  using decimal_digits [of "nat n"] decimal_digits [of "nat (- n)"]
  by (auto simp: parse_int64_def appendInt_def pad_def decimal_no_sign list_all_iff Let_def) (simp_all add: take_sign_def)

lemma field_values_unique:
  assumes "distinct (map fst kvs)" and "inj_on fold_name (insert name (fst ` set kvs))"
  shows "field_values name kvs = (case map_of kvs name of None \<Rightarrow> [] | Some v \<Rightarrow> [v])"
proof -
  have "filter (\<lambda>kv. fold_name (fst kv) = fold_name name) kvs = filter (\<lambda>kv. fst kv = name) kvs"
    using assms(2) by (intro filter_cong) (auto simp: inj_on_def)
  moreover have "filter (\<lambda>kv. fst kv = name) kvs = (case map_of kvs name of None \<Rightarrow> [] | Some v \<Rightarrow> [(name, v)])"
    using assms(1)
  proof (induction kvs)
    case (Cons kv kvs)
    obtain k v where kv: "kv = (k, v)" by fastforce
    show ?case
    proof (cases "k = name")
      case True
      with Cons kv have "map_of kvs name = None" by (simp add: map_of_eq_None_iff)
      with Cons kv True show ?thesis by simp
    next
      case False
      with Cons kv show ?thesis by simp
    qed
  qed simp
  ultimately show ?thesis by (simp add: field_values_def split: option.splits)
qed

end
