(* ===== verification/Postgres.thy ===== *)
theory Postgres
  imports Go_Decode Store
begin

text \<open>
  \<^verbatim>\<open>store/postgres.go\<close> and the PostgreSQL half of \<^verbatim>\<open>store/verify.go\<close>: every operation
  marshals its arguments, calls one stored procedure and decodes the envelope it answers with. The
  driver and the broker's envelope codec are the fields of \<open>pgx\<close>; \<open>'p\<close> is the state behind the
  pool. What a procedure reads from its surroundings (the server's clock, ids) is the
  \<open>world option\<close> of \<open>QueryRow\<close>. A \<^verbatim>\<open>json.RawMessage\<close> is the tree of its text. The texts of
  errors that \<^verbatim>\<open>encoding/json\<close> returns are left out of the errors that wrap them. The main
  lemmas: the values a well-formed reply decodes to, and that an error a procedure raises reaches
  the caller as the error it returns.
\<close>

section \<open>The driver\<close>

text \<open>An error of a query: one from the server, with its SQLSTATE, message and text, or another.\<close>

datatype pg_error = PgError string string string | ConnError string

fun error_text :: "pg_error \<Rightarrow> string" where
  "error_text (PgError code message txt) = txt"
| "error_text (ConnError txt) = txt"

record ('p, 'a, 'r) pgx =
  QueryRow :: "world option \<Rightarrow> string \<Rightarrow> string \<Rightarrow> 'p \<Rightarrow> (pg_error + string) \<times> 'p"
  pool_Ping :: "'p \<Rightarrow> (error + unit) \<times> 'p"
  pool_Close :: "'p \<Rightarrow> 'p"
  envelope_json :: "('a, 'r) envelope \<Rightarrow> wire option"
  envelope_of_json :: "wire \<Rightarrow> ('a, 'r) envelope option"

definition NewPostgres :: "(string \<Rightarrow> string + 'p) \<Rightarrow> string \<Rightarrow> error + 'p" where
  "NewPostgres pgxpool_New dsn =
     (case pgxpool_New dsn of
        Inl err \<Rightarrow> Inl (StoreError (''store: postgres connect: '' @ err))
      | Inr pool \<Rightarrow> Inr pool)"

definition pg_Close :: "('p, 'a, 'r) pgx \<Rightarrow> 'p \<Rightarrow> 'p" where
  "pg_Close pg s = pool_Close pg s"

definition pg_Ping :: "('p, 'a, 'r) pgx \<Rightarrow> 'p \<Rightarrow> (error + unit) \<times> 'p" where
  "pg_Ping pg s = pool_Ping pg s"

section \<open>Calling a procedure\<close>

record proc_envelope =
  Result :: string
  Data :: "wire option"
  Code :: string
  Message :: string

definition zero_proc_envelope :: proc_envelope where
  "zero_proc_envelope = \<lparr>Result = [], Data = None, Code = [], Message = []\<rparr>"

definition proc_envelope_fields :: "(string \<times> wire) list \<Rightarrow> proc_envelope \<Rightarrow> proc_envelope option" where
  "proc_envelope_fields kvs x =
     do { r \<leftarrow> decode_field decode_string ''result'' kvs (Result x);
          d \<leftarrow> decode_field decode_raw ''data'' kvs (Data x);
          c \<leftarrow> decode_field decode_string ''code'' kvs (Code x);
          m \<leftarrow> decode_field decode_string ''message'' kvs (Message x);
          Some \<lparr>Result = r, Data = d, Code = c, Message = m\<rparr> }"

definition decode_envelope :: "string \<Rightarrow> proc_envelope option" where
  "decode_envelope txt = do { v \<leftarrow> Unmarshal txt; decode_struct proc_envelope_fields v zero_proc_envelope }"

definition proc_error :: "string \<Rightarrow> proc_envelope \<Rightarrow> error" where
  "proc_error proc env = StoreError (''store: '' @ proc @ '': '' @ Code env @ '': '' @ Message env)"

text \<open>The error branch of \<^verbatim>\<open>call\<close>: SQLSTATE P0001 carries a structured error in its message.\<close>

definition query_error :: "string \<Rightarrow> pg_error \<Rightarrow> error" where
  "query_error proc err =
     (let wrapped = StoreError (''store: '' @ proc @ '': '' @ error_text err)
      in case err of
           PgError code message txt \<Rightarrow>
             if code = ''P0001''
             then (case decode_envelope message of
                     Some env \<Rightarrow> if Result env = ''error'' then proc_error proc env else wrapped
                   | None \<Rightarrow> wrapped)
             else wrapped
         | ConnError txt \<Rightarrow> wrapped)"

definition reply_data :: "string \<Rightarrow> string \<Rightarrow> error + wire option" where
  "reply_data proc out =
     (case decode_envelope out of
        None \<Rightarrow> Inl (StoreError (''store: '' @ proc @ '': decode result''))
      | Some env \<Rightarrow> if Result env \<noteq> ''success'' then Inl (proc_error proc env) else Inr (Data env))"

definition call_sql :: "string \<Rightarrow> string" where
  "call_sql proc = ''CALL '' @ proc @ ''($1::jsonb, NULL::jsonb)''"

text \<open>\<^verbatim>\<open>call\<close>; the input is \<open>None\<close> when \<^verbatim>\<open>json.Marshal\<close> fails.\<close>

definition call ::
    "('p, 'a, 'r) pgx \<Rightarrow> world option \<Rightarrow> string \<Rightarrow> wire option \<Rightarrow> 'p \<Rightarrow> (error + wire option) \<times> 'p" where
  "call pg w proc input s =
     (case input of
        None \<Rightarrow> (Inl (StoreError ''store: marshal input''), s)
      | Some x \<Rightarrow>
          (case QueryRow pg w (call_sql proc) (render_wire x) s of
             (Inl err, s') \<Rightarrow> (Inl (query_error proc err), s')
           | (Inr out, s') \<Rightarrow> (reply_data proc out, s')))"

text \<open>The common tail of the operations: pass an error on, else decode the data.\<close>

definition with_data :: "(wire option \<Rightarrow> error + 'x) \<Rightarrow> (error + wire option) \<times> 'p \<Rightarrow> (error + 'x) \<times> 'p" where
  "with_data f r = (case r of (Inl err, s) \<Rightarrow> (Inl err, s) | (Inr data, s) \<Rightarrow> (f data, s))"

definition decoded :: "string \<Rightarrow> 'x option \<Rightarrow> error + 'x" where
  "decoded op res =
     (case res of
        None \<Rightarrow> Inl (StoreError (''store: '' @ op @ '': decode''))
      | Some x \<Rightarrow> Inr x)"

section \<open>The operations\<close>

definition omit_text :: "string \<Rightarrow> string \<Rightarrow> (string \<times> wire) list" where
  "omit_text k s = (if s = [] then [] else [(k, WStr s)])"

definition appendInput :: "('p, 'a, 'r) pgx \<Rightarrow> ('a, 'r) access_record \<Rightarrow> wire option" where
  "appendInput pg r =
     (case envelope_json pg (Envelope r) of
        None \<Rightarrow> None
      | Some e \<Rightarrow> Some (WObj ([(''record'', e), (''seal'', WStr (RowSeal r))] @
          omit_text ''source_service'' (SourceService r) @ omit_text ''system'' (System r))))"

definition append_fields :: "(string \<times> wire) list \<Rightarrow> AppendResult \<Rightarrow> AppendResult option" where
  "append_fields kvs x =
     do { i \<leftarrow> decode_field decode_string ''recordId'' kvs (RecordID x);
          e \<leftarrow> decode_field decode_string ''eventId'' kvs (ResEventID x);
          d \<leftarrow> decode_field decode_bool ''duplicate'' kvs (Duplicate x);
          Some \<lparr>RecordID = i, ResEventID = e, Duplicate = d\<rparr> }"

definition pg_Append ::
    "('p, 'a, 'r) pgx \<Rightarrow> world \<Rightarrow> ('a, 'r) access_record \<Rightarrow> 'p \<Rightarrow> (error + AppendResult) \<times> 'p" where
  "pg_Append pg w r s =
     with_data (\<lambda>data. decoded ''append'' (unmarshal_raw (decode_struct append_fields) \<lparr>RecordID = [], ResEventID = [], Duplicate = False\<rparr> data))
       (call pg (Some w) ''access_audit.append_record'' (appendInput pg r) s)"

definition subject_input :: "string \<Rightarrow> time \<Rightarrow> time \<Rightarrow> int \<Rightarrow> wire" where
  "subject_input subject from to limit =
     wire_map ([(''subject'', WStr subject)] @
       (if IsZero from then [] else [(''from'', WStr (format_rfc3339nano from))]) @
       (if IsZero to then [] else [(''to'', WStr (format_rfc3339nano to))]) @
       (if limit > 0 then [(''limit'', wire_int limit)] else []))"

record stored_row =
  Content :: "wire option"
  row_seal :: string
  row_seq :: int

definition row_fields :: "(string \<times> wire) list \<Rightarrow> stored_row \<Rightarrow> stored_row option" where
  "row_fields kvs x =
     do { c \<leftarrow> decode_field decode_raw ''content'' kvs (Content x);
          l \<leftarrow> decode_field decode_string ''seal'' kvs (row_seal x);
          q \<leftarrow> decode_field decode_int64 ''seq'' kvs (row_seq x);
          Some \<lparr>Content = c, row_seal = l, row_seq = q\<rparr> }"

definition records_fields :: "(string \<times> wire) list \<Rightarrow> stored_row list \<Rightarrow> stored_row list option" where
  "records_fields kvs x =
     decode_field (decode_list (decode_struct row_fields) \<lparr>Content = None, row_seal = [], row_seq = 0\<rparr>) ''records'' kvs x"

text \<open>The loop that decodes the content of every row.\<close>

fun build_records :: "('p, 'a, 'r) pgx \<Rightarrow> stored_row list \<Rightarrow> error + ('a, 'r) access_record list" where
  "build_records pg [] = Inr []"
| "build_records pg (r # rs) =
     (case Option.bind (Content r) (envelope_of_json pg) of
        None \<Rightarrow> Inl (StoreError ''store: by_subject: decode record'')
      | Some ev \<Rightarrow>
          (case build_records pg rs of
             Inl err \<Rightarrow> Inl err
           | Inr out \<Rightarrow>
               Inr (\<lparr>RowID = [], Envelope = ev, RowSeal = row_seal r, Seq = row_seq r, SourceService = [], System = []\<rparr> # out)))"

definition pg_BySubject ::
    "('p, 'a, 'r) pgx \<Rightarrow> string \<Rightarrow> time \<Rightarrow> time \<Rightarrow> int \<Rightarrow> 'p \<Rightarrow> (error + ('a, 'r) access_record list) \<times> 'p" where
  "pg_BySubject pg subject from to limit s =
     with_data (\<lambda>data.
         case unmarshal_raw (decode_struct records_fields) [] data of
           None \<Rightarrow> Inl (StoreError ''store: by_subject: decode'')
         | Some rows \<Rightarrow> build_records pg rows)
       (call pg None ''access_audit.records_by_subject'' (Some (subject_input subject from to limit)) s)"

definition seals_fields :: "(string \<times> wire) list \<Rightarrow> string list \<times> int \<Rightarrow> (string list \<times> int) option" where
  "seals_fields kvs x =
     do { ss \<leftarrow> decode_field (decode_list decode_string []) ''seals'' kvs (fst x);
          n \<leftarrow> decode_field decode_int64 ''count'' kvs (snd x);
          Some (ss, n) }"

definition pg_SealsForPeriod :: "('p, 'a, 'r) pgx \<Rightarrow> string \<Rightarrow> 'p \<Rightarrow> (error + string list \<times> int) \<times> 'p" where
  "pg_SealsForPeriod pg period s =
     with_data (\<lambda>data. decoded ''seals_for_period'' (unmarshal_raw (decode_struct seals_fields) ([], 0) data))
       (call pg None ''access_audit.seals_for_period'' (Some (wire_map [(''period'', WStr period)])) s)"

definition periods_fields :: "(string \<times> wire) list \<Rightarrow> string list \<Rightarrow> string list option" where
  "periods_fields kvs x = decode_field (decode_list decode_string []) ''periods'' kvs x"

definition pg_PendingCheckpointPeriods :: "('p, 'a, 'r) pgx \<Rightarrow> string \<Rightarrow> 'p \<Rightarrow> (error + string list) \<times> 'p" where
  "pg_PendingCheckpointPeriods pg before s =
     with_data (\<lambda>data. decoded ''periods_pending_checkpoint'' (unmarshal_raw (decode_struct periods_fields) [] data))
       (call pg None ''access_audit.periods_pending_checkpoint'' (Some (wire_map [(''before'', WStr before)])) s)"

definition checkpoint_input :: "checkpoint \<Rightarrow> wire" where
  "checkpoint_input cp =
     wire_map [(''period'', WStr (CpPeriod cp)), (''row_count'', wire_int (RowCount cp)),
       (''checkpoint_seal'', WStr (CpSeal cp))]"

definition created_fields :: "(string \<times> wire) list \<Rightarrow> bool \<Rightarrow> bool option" where
  "created_fields kvs x = decode_field decode_bool ''created'' kvs x"

definition pg_SaveCheckpoint :: "('p, 'a, 'r) pgx \<Rightarrow> world \<Rightarrow> checkpoint \<Rightarrow> 'p \<Rightarrow> (error + bool) \<times> 'p" where
  "pg_SaveCheckpoint pg w cp s =
     with_data (\<lambda>data. decoded ''save_checkpoint'' (unmarshal_raw (decode_struct created_fields) False data))
       (call pg (Some w) ''access_audit.save_checkpoint'' (Some (checkpoint_input cp)) s)"

definition zero_checkpoint :: checkpoint where
  "zero_checkpoint = \<lparr>CpPeriod = [], RowCount = 0, CpSeal = [], SealedAt = 0\<rparr>"

definition checkpoint_fields :: "(string \<times> wire) list \<Rightarrow> checkpoint \<Rightarrow> checkpoint option" where
  "checkpoint_fields kvs x =
     do { p \<leftarrow> decode_field decode_string ''period'' kvs (CpPeriod x);
          n \<leftarrow> decode_field decode_int64 ''rowCount'' kvs (RowCount x);
          l \<leftarrow> decode_field decode_string ''checkpointSeal'' kvs (CpSeal x);
          t \<leftarrow> decode_field decode_time ''sealedAt'' kvs (SealedAt x);
          Some \<lparr>CpPeriod = p, RowCount = n, CpSeal = l, SealedAt = t\<rparr> }"

definition load_fields :: "(string \<times> wire) list \<Rightarrow> checkpoint option \<Rightarrow> checkpoint option option" where
  "load_fields kvs x = decode_field (decode_ptr (decode_struct checkpoint_fields) zero_checkpoint) ''checkpoint'' kvs x"

definition pg_LoadCheckpoint :: "('p, 'a, 'r) pgx \<Rightarrow> string \<Rightarrow> 'p \<Rightarrow> (error + checkpoint option) \<times> 'p" where
  "pg_LoadCheckpoint pg period s =
     with_data (\<lambda>data. decoded ''load_checkpoint'' (unmarshal_raw (decode_struct load_fields) None data))
       (call pg None ''access_audit.load_checkpoint'' (Some (wire_map [(''period'', WStr period)])) s)"

definition pg_SetLegalHold ::
    "('p, 'a, 'r) pgx \<Rightarrow> string \<Rightarrow> string \<Rightarrow> string \<Rightarrow> bool \<Rightarrow> 'p \<Rightarrow> (error + unit) \<times> 'p" where
  "pg_SetLegalHold pg subject reason placedBy hold s =
     with_data (\<lambda>data. Inr ())
       (call pg None ''access_audit.set_legal_hold''
         (Some (wire_map [(''subject'', WStr subject), (''hold'', WBool hold), (''reason'', WStr reason),
           (''placed_by'', WStr placedBy)])) s)"

definition purge_fields :: "(string \<times> wire) list \<Rightarrow> PurgeResult \<Rightarrow> PurgeResult option" where
  "purge_fields kvs x =
     do { c \<leftarrow> decode_field decode_string ''cutoff'' kvs (Cutoff x);
          n \<leftarrow> decode_field decode_int64 ''purged'' kvs (Purged x);
          h \<leftarrow> decode_field decode_int64 ''retainedUnderHold'' kvs (RetainedUnderHold x);
          Some \<lparr>Cutoff = c, Purged = n, RetainedUnderHold = h\<rparr> }"

definition pg_PurgeExpired :: "('p, 'a, 'r) pgx \<Rightarrow> string \<Rightarrow> 'p \<Rightarrow> (error + PurgeResult) \<times> 'p" where
  "pg_PurgeExpired pg cutoff s =
     with_data (\<lambda>data. decoded ''purge_expired'' (unmarshal_raw (decode_struct purge_fields) \<lparr>Cutoff = [], Purged = 0, RetainedUnderHold = 0\<rparr> data))
       (call pg None ''access_audit.purge_expired'' (Some (wire_map [(''cutoff'', WStr cutoff)])) s)"

definition evidence_input :: "VerifyEvent \<Rightarrow> wire" where
  "evidence_input ev =
     wire_map [
       (''event'', wire_map [
          (''ts'', WStr (format_rfc3339nano (TS ev))),
          (''ip'', WStr (EvIP ev)),
          (''userAgent'', WStr (UserAgent ev)),
          (''sizeBytes'', wire_int (SizeBytes ev)),
          (''sha256'', WStr (SHA256 ev)),
          (''verdict'', WStr (Verdict ev)),
          (''correlationId'', WStr (CorrelationID ev)),
          (''sessionId'', WStr (SessionID ev))]),
       (''source_service'', WStr (EvSourceService ev))]"

definition event_id_fields :: "(string \<times> wire) list \<Rightarrow> string \<Rightarrow> string option" where
  "event_id_fields kvs x = decode_field decode_string ''eventId'' kvs x"

definition pg_AppendVerifyEvent :: "('p, 'a, 'r) pgx \<Rightarrow> world \<Rightarrow> VerifyEvent \<Rightarrow> 'p \<Rightarrow> (error + string) \<times> 'p" where
  "pg_AppendVerifyEvent pg w ev s =
     with_data (\<lambda>data. decoded ''record_event'' (unmarshal_raw (decode_struct event_id_fields) [] data))
       (call pg (Some w) ''verify_audit.record_event'' (Some (evidence_input ev)) s)"

definition sweep_fields :: "(string \<times> wire) list \<Rightarrow> VerifySweepResult \<Rightarrow> VerifySweepResult option" where
  "sweep_fields kvs x =
     do { c \<leftarrow> decode_field decode_string ''cutoff'' kvs (SweepCutoff x);
          n \<leftarrow> decode_field decode_int64 ''purged'' kvs (SweepPurged x);
          Some \<lparr>SweepCutoff = c, SweepPurged = n\<rparr> }"

definition pg_SweepVerifyExpired ::
    "('p, 'a, 'r) pgx \<Rightarrow> world \<Rightarrow> int \<Rightarrow> 'p \<Rightarrow> (error + VerifySweepResult) \<times> 'p" where
  "pg_SweepVerifyExpired pg w retentionDays s =
     with_data (\<lambda>data. decoded ''sweep_retention'' (unmarshal_raw (decode_struct sweep_fields) \<lparr>SweepCutoff = [], SweepPurged = 0\<rparr> data))
       (call pg (Some w) ''verify_audit.sweep_retention'' (Some (wire_map [(''retention_days'', wire_int retentionDays)])) s)"

definition postgres_store :: "('p, 'a, 'r) pgx \<Rightarrow> ('p, 'a, 'r) Store" where
  "postgres_store pg =
     \<lparr>Append = pg_Append pg, BySubject = pg_BySubject pg, SealsForPeriod = pg_SealsForPeriod pg,
      PendingCheckpointPeriods = pg_PendingCheckpointPeriods pg, SaveCheckpoint = pg_SaveCheckpoint pg,
      LoadCheckpoint = pg_LoadCheckpoint pg, SetLegalHold = pg_SetLegalHold pg,
      PurgeExpired = pg_PurgeExpired pg, AppendVerifyEvent = pg_AppendVerifyEvent pg,
      SweepVerifyExpired = pg_SweepVerifyExpired pg, Ping = pg_Ping pg\<rparr>"

section \<open>Decoding well-formed replies\<close>

text \<open>PostgreSQL returns the members of an object in an order of its own, each once.\<close>

definition members :: "(string \<times> wire) list \<Rightarrow> (string \<times> wire) list \<Rightarrow> bool" where
  "members kvs spec \<longleftrightarrow> distinct (map fst kvs) \<and> set kvs = set spec"

lemma fold_name_ascii: "\<forall>c \<in> set k. (of_char c :: nat) < 128 \<Longrightarrow> fold_name k = map (\<lambda>c. fold_rune (of_char c)) k"
  by (simp add: fold_name_def runes_def tokens_ascii)

lemma field_values_members:
  assumes "members kvs spec" and "distinct (map fst spec)" and "length (field_values name spec) \<le> 1"
  shows "field_values name kvs = field_values name spec"
proof -
  have "distinct kvs" "distinct spec" using assms(1,2) by (auto simp: members_def distinct_map)
  then have "mset kvs = mset spec" using assms(1) by (simp add: members_def set_eq_iff_mset_eq_distinct)
  then have "mset (field_values name kvs) = mset (field_values name spec)"
    by (simp add: field_values_def)
  with assms(3) show ?thesis
    by (cases "field_values name spec") (auto dest: mset_eq_length)
qed

lemma decode_field_members:
  assumes "members kvs spec" and "distinct (map fst spec)" and "length (field_values name spec) \<le> 1"
  shows "decode_field dec name kvs x = decode_all dec (field_values name spec) x"
  using field_values_members [OF assms] by (simp add: decode_field_def)

lemmas decode_simps = field_values_def fold_name_ascii fold_rune_def decode_string_def decode_raw_def
  decode_bool_def decode_int64_def decode_time_def decode_struct_def unmarshal_raw_def

text \<open>What the procedures answer with: \<^verbatim>\<open>util.result_success\<close> with the data, a structured error
  that is returned, or an error of the query.\<close>

definition pg_answered :: "pg_error + string \<Rightarrow> wire \<Rightarrow> bool" where
  "pg_answered res d \<longleftrightarrow>
     (\<exists>out kvs. res = Inr out \<and> Unmarshal out = Some (WObj kvs) \<and>
        members kvs [(''result'', WStr ''success''), (''data'', d)])"

definition pg_refused :: "pg_error + string \<Rightarrow> bool" where
  "pg_refused res \<longleftrightarrow>
     (\<forall>out. res = Inr out \<longrightarrow>
        (\<exists>kvs c m. Unmarshal out = Some (WObj kvs) \<and>
           members kvs [(''result'', WStr ''error''), (''code'', WStr c), (''message'', WStr m)]))"

lemma decode_success:
  assumes "members kvs [(''result'', WStr ''success''), (''data'', d)]"
  shows "proc_envelope_fields kvs zero_proc_envelope =
    Some \<lparr>Result = ''success'', Data = Some d, Code = [], Message = []\<rparr>"
  unfolding proc_envelope_fields_def
  by (simp add: decode_field_members [OF assms] decode_simps zero_proc_envelope_def)

lemma decode_failure:
  assumes "members kvs [(''result'', WStr ''error''), (''code'', WStr c), (''message'', WStr m)]"
  shows "proc_envelope_fields kvs zero_proc_envelope =
    Some \<lparr>Result = ''error'', Data = None, Code = c, Message = m\<rparr>"
  unfolding proc_envelope_fields_def
  by (simp add: decode_field_members [OF assms] decode_simps zero_proc_envelope_def)

lemma call_answered:
  assumes "QueryRow pg w (call_sql proc) (render_wire x) s = (res, s')" and "pg_answered res d"
  shows "call pg w proc (Some x) s = (Inr (Some d), s')"
  using assms decode_success
  by (auto simp: call_def pg_answered_def reply_data_def decode_envelope_def decode_struct_def)

lemma call_refused:
  assumes "QueryRow pg w (call_sql proc) (render_wire x) s = (res, s')" and "pg_refused res"
  shows "\<exists>err. call pg w proc (Some x) s = (Inl err, s')"
proof (cases res)
  case (Inr out)
  with assms(2) obtain kvs c m where "Unmarshal out = Some (WObj kvs)"
    "members kvs [(''result'', WStr ''error''), (''code'', WStr c), (''message'', WStr m)]"
    by (auto simp: pg_refused_def)
  with assms(1) Inr show ?thesis
    by (simp add: call_def reply_data_def decode_envelope_def decode_struct_def decode_failure)
qed (use assms in \<open>simp add: call_def\<close>)

lemma with_data_call:
  assumes "QueryRow pg w (call_sql proc) (render_wire x) s = (res, s')"
  shows "pg_answered res d \<Longrightarrow> with_data f (call pg w proc (Some x) s) = (f (Some d), s')"
    and "pg_refused res \<Longrightarrow> \<exists>err. with_data f (call pg w proc (Some x) s) = (Inl err, s')"
  using call_answered [OF assms] call_refused [OF assms] by (auto simp: with_data_def)

definition object :: "wire \<Rightarrow> (string \<times> wire) list \<Rightarrow> bool" where
  "object d spec \<longleftrightarrow> (\<exists>kvs. d = WObj kvs \<and> members kvs spec)"

definition in_int64 :: "int \<Rightarrow> bool" where
  "in_int64 n \<longleftrightarrow> - (2 ^ 63) \<le> n \<and> n < 2 ^ 63"

lemma parse_int64_wire: "in_int64 n \<Longrightarrow> parse_int64 (appendInt n 0) = Some n"
  by (simp add: in_int64_def parse_int64_appendInt)

lemma decode_elems_strings: "decode_elems decode_string [] (map WStr xs) = Some xs"
  by (induction xs) (simp_all add: decode_string_def)

lemma unmarshal_object:
  assumes "object d spec" and "\<And>kvs. members kvs spec \<Longrightarrow> f kvs x = y"
  shows "unmarshal_raw (decode_struct f) x (Some d) = y"
  using assms by (auto simp: object_def unmarshal_raw_def decode_struct_def)

lemma decode_append:
  "object d [(''recordId'', WStr i), (''eventId'', WStr e), (''duplicate'', WBool b)] \<Longrightarrow>
    unmarshal_raw (decode_struct append_fields) x (Some d) = Some \<lparr>RecordID = i, ResEventID = e, Duplicate = b\<rparr>"
  by (erule unmarshal_object) (simp add: append_fields_def decode_field_members decode_simps)

lemma decode_seals:
  "object d [(''seals'', WArr (map WStr ss)), (''count'', wire_int n)] \<Longrightarrow> in_int64 n \<Longrightarrow>
    unmarshal_raw (decode_struct seals_fields) x (Some d) = Some (ss, n)"
  by (erule unmarshal_object) (simp add: seals_fields_def decode_field_members decode_simps decode_list_def
      decode_elems_strings wire_int_def parse_int64_wire)

lemma decode_periods:
  "object d [(''periods'', WArr (map WStr ps))] \<Longrightarrow> unmarshal_raw (decode_struct periods_fields) x (Some d) = Some ps"
  by (erule unmarshal_object) (simp add: periods_fields_def decode_field_members decode_simps decode_list_def
      decode_elems_strings)

lemma decode_created:
  "object d [(''created'', WBool b)] \<Longrightarrow> unmarshal_raw (decode_struct created_fields) x (Some d) = Some b"
  by (erule unmarshal_object) (simp add: created_fields_def decode_field_members decode_simps)

lemma decode_event_id:
  "object d [(''eventId'', WStr i)] \<Longrightarrow> unmarshal_raw (decode_struct event_id_fields) x (Some d) = Some i"
  by (erule unmarshal_object) (simp add: event_id_fields_def decode_field_members decode_simps)

lemma decode_sweep:
  "object d [(''cutoff'', WStr c), (''purged'', wire_int n)] \<Longrightarrow> in_int64 n \<Longrightarrow>
    unmarshal_raw (decode_struct sweep_fields) x (Some d) = Some \<lparr>SweepCutoff = c, SweepPurged = n\<rparr>"
  by (erule unmarshal_object) (simp add: sweep_fields_def decode_field_members decode_simps wire_int_def parse_int64_wire)

lemma decode_purge:
  "object d [(''cutoff'', WStr c), (''purged'', wire_int n), (''retainedUnderHold'', wire_int h)] \<Longrightarrow>
    in_int64 n \<Longrightarrow> in_int64 h \<Longrightarrow>
    unmarshal_raw (decode_struct purge_fields) x (Some d) = Some \<lparr>Cutoff = c, Purged = n, RetainedUnderHold = h\<rparr>"
  by (erule unmarshal_object) (simp add: purge_fields_def decode_field_members decode_simps wire_int_def parse_int64_wire)

text \<open>The answer of \<^verbatim>\<open>load_checkpoint\<close>: null, or the checkpoint with its time in RFC 3339.\<close>

definition checkpoint_answer :: "wire \<Rightarrow> checkpoint option \<Rightarrow> bool" where
  "checkpoint_answer v c =
     (case c of
        None \<Rightarrow> v = WNull
      | Some cp \<Rightarrow> \<exists>t. in_int64 (RowCount cp) \<and> parse_rfc3339 t = Some (SealedAt cp) \<and>
          object v [(''period'', WStr (CpPeriod cp)), (''rowCount'', wire_int (RowCount cp)),
            (''checkpointSeal'', WStr (CpSeal cp)), (''sealedAt'', WStr t)])"

lemma decode_checkpoint:
  assumes "checkpoint_answer v c"
  shows "decode_ptr (decode_struct checkpoint_fields) zero_checkpoint v None = Some c"
proof (cases c)
  case (Some cp)
  with assms obtain t kvs where v: "v = WObj kvs" "in_int64 (RowCount cp)" "parse_rfc3339 t = Some (SealedAt cp)"
    "members kvs [(''period'', WStr (CpPeriod cp)), (''rowCount'', wire_int (RowCount cp)),
       (''checkpointSeal'', WStr (CpSeal cp)), (''sealedAt'', WStr t)]"
    by (auto simp: checkpoint_answer_def object_def)
  have "checkpoint_fields kvs zero_checkpoint = Some cp"
    using v(2,3) by (simp add: checkpoint_fields_def decode_field_members [OF v(4)] decode_simps wire_int_def parse_int64_wire)
  then show ?thesis by (simp add: Some v(1) decode_ptr_def decode_struct_def)
qed (use assms in \<open>simp add: checkpoint_answer_def decode_ptr_def\<close>)

lemma decode_load:
  "object d [(''checkpoint'', v)] \<Longrightarrow> checkpoint_answer v c \<Longrightarrow>
    unmarshal_raw (decode_struct load_fields) None (Some d) = Some c"
  by (erule unmarshal_object) (simp add: load_fields_def decode_field_members decode_simps decode_checkpoint)

text \<open>A row of \<^verbatim>\<open>records_by_subject\<close> and the record it is read as.\<close>

definition row_answer :: "('p, 'a, 'r) pgx \<Rightarrow> wire \<Rightarrow> ('a, 'r) access_record \<Rightarrow> bool" where
  "row_answer pg v r \<longleftrightarrow>
     (\<exists>c. envelope_of_json pg c = Some (Envelope r) \<and> in_int64 (Seq r) \<and>
        object v [(''content'', c), (''seal'', WStr (RowSeal r)), (''seq'', wire_int (Seq r))])"

definition visible :: "('a, 'r) access_record \<Rightarrow> ('a, 'r) access_record" where
  "visible r = r\<lparr>RowID := [], SourceService := [], System := []\<rparr>"

lemma decode_rows:
  assumes "list_all2 (row_answer pg) vs rs"
  shows "\<exists>rows. decode_elems (decode_struct row_fields) \<lparr>Content = None, row_seal = [], row_seq = 0\<rparr> vs = Some rows \<and>
    build_records pg rows = Inr (map visible rs)"
  using assms
proof (induction rule: list_all2_induct)
  case (Cons v vs r rs)
  then obtain c kvs where v: "envelope_of_json pg c = Some (Envelope r)" "in_int64 (Seq r)" "v = WObj kvs"
    "members kvs [(''content'', c), (''seal'', WStr (RowSeal r)), (''seq'', wire_int (Seq r))]"
    by (auto simp: row_answer_def object_def)
  have "row_fields kvs \<lparr>Content = None, row_seal = [], row_seq = 0\<rparr> =
      Some \<lparr>Content = Some c, row_seal = RowSeal r, row_seq = Seq r\<rparr>"
    using v(2) by (simp add: row_fields_def decode_field_members [OF v(4)] decode_simps wire_int_def parse_int64_wire)
  with Cons v(1,3) show ?case by (auto simp: decode_struct_def visible_def)
qed simp

lemma decode_records:
  assumes "object d [(''records'', WArr vs)]" and "list_all2 (row_answer pg) vs rs"
  shows "\<exists>rows. unmarshal_raw (decode_struct records_fields) [] (Some d) = Some rows \<and>
    build_records pg rows = Inr (map visible rs)"
proof -
  obtain rows where rows: "decode_elems (decode_struct row_fields) \<lparr>Content = None, row_seal = [], row_seq = 0\<rparr> vs = Some rows"
    "build_records pg rows = Inr (map visible rs)" using decode_rows [OF assms(2)] by blast
  then have "unmarshal_raw (decode_struct records_fields) [] (Some d) = Some rows"
    by (intro unmarshal_object [OF assms(1)])
      (simp add: records_fields_def decode_field_members field_values_def fold_name_ascii fold_rune_def decode_list_def)
  with rows(2) show ?thesis by blast
qed

section \<open>Properties\<close>

lemma with_data_Inr: "with_data f r = (Inr y, s') \<longleftrightarrow> (\<exists>d. r = (Inr d, s') \<and> f d = Inr y)"
  by (auto simp: with_data_def split: prod.splits sum.splits)

lemma build_records_Inr: "build_records pg rows = Inr rs \<Longrightarrow> r \<in> set rs \<Longrightarrow> RowID r = [] \<and> SourceService r = [] \<and> System r = []"
  by (induction rows arbitrary: rs) (auto split: option.splits sum.splits)

definition sample_driver :: "pg_error + string \<Rightarrow> (nat, string, string) pgx" where
  "sample_driver res =
     \<lparr>QueryRow = (\<lambda>w q inp n. (res, n + 1)), pool_Ping = (\<lambda>n. (Inr (), n)), pool_Close = (\<lambda>n. n),
      envelope_json = (\<lambda>e. None), envelope_of_json = (\<lambda>v. Some sample_envelope)\<rparr>"

definition sample_failure :: wire where
  "sample_failure = WObj [(''result'', WStr ''error''), (''code'', WStr ''E1''), (''message'', WStr ''no'')]"

definition sample_reply :: wire where
  "sample_reply = WObj [(''result'', WStr ''success''), (''data'', WObj [(''records'', WArr [WObj
     [(''content'', WObj []), (''seal'', WStr ''00''), (''seq'', wire_int 1)]])])]"

lemma sample_failure_decodes:
  "decode_envelope (render_wire sample_failure) = Some \<lparr>Result = ''error'', Data = None, Code = ''E1'', Message = ''no''\<rparr>"
proof -
  have "Unmarshal (render_wire sample_failure) = Some sample_failure"
    by (intro Unmarshal_render) (simp add: sample_failure_def valid_ascii)
  then show ?thesis
    by (simp add: decode_envelope_def decode_struct_def sample_failure_def decode_failure [of _ "''E1''" "''no''"] members_def)
qed

text \<open>A procedure call succeeds exactly when the query returns a text that decodes to an envelope
  whose result is "success", and then hands back the data of that envelope; a query error, a text
  that does not decode and any other result are errors.\<close>

theorem call_succeeds_iff:
  "call pg w proc input s = (Inr d, s') \<longleftrightarrow>
     (\<exists>x out env. input = Some x \<and> QueryRow pg w (call_sql proc) (render_wire x) s = (Inr out, s') \<and>
        decode_envelope out = Some env \<and> Result env = ''success'' \<and> Data env = d)"
  by (auto simp: call_def reply_data_def split: option.splits prod.splits sum.splits if_splits)

text \<open>C17: a structured error reaches the caller as the same error value, with the procedure, the
  code and the message, whether the procedure returns it or raises it with SQLSTATE P0001 to roll
  back.\<close>

theorem raised_error_reads_as_returned:
  assumes "decode_envelope m = Some env" and "Result env = ''error''"
    and "QueryRow raising w (call_sql proc) (render_wire x) s = (Inl (PgError ''P0001'' m e), t)"
    and "QueryRow returning w (call_sql proc) (render_wire x) s = (Inr m, u)"
  shows "call raising w proc (Some x) s = (Inl (proc_error proc env), t) \<and>
    call returning w proc (Some x) s = (Inl (proc_error proc env), u)"
  using assms by (simp add: call_def query_error_def reply_data_def Let_def)

theorem raised_error_reads_as_returned_witness:
  "call (sample_driver (Inl (PgError ''P0001'' (render_wire sample_failure) ''ERROR''))) None ''p'' (Some WNull) 0 =
     (Inl (StoreError ''store: p: E1: no''), 1) \<and>
   call (sample_driver (Inr (render_wire sample_failure))) None ''p'' (Some WNull) 0 =
     (Inl (StoreError ''store: p: E1: no''), 1)"
  using raised_error_reads_as_returned [OF sample_failure_decodes, where w = None and proc = "''p''" and x = WNull and s = "0 :: nat"
      and raising = "sample_driver (Inl (PgError ''P0001'' (render_wire sample_failure) ''ERROR''))"
      and returning = "sample_driver (Inr (render_wire sample_failure))" and e = "''ERROR''" and t = "1 :: nat" and u = "1 :: nat"]
  by (simp add: sample_driver_def proc_error_def)

text \<open>C38: the records a subject read returns from PostgreSQL have an envelope, a seal and a sequence
  number, but no row id, source service or system, although \<^verbatim>\<open>Record.RowID\<close> is documented as
  populated on read.\<close>

theorem postgres_reads_lack_row_ids:
  assumes "pg_BySubject pg subject from to limit s = (Inr rs, s')" and "r \<in> set rs"
  shows "RowID r = [] \<and> SourceService r = [] \<and> System r = []"
proof -
  obtain rows where "build_records pg rows = Inr rs"
    using assms(1) by (auto simp: pg_BySubject_def with_data_Inr split: option.splits)
  from build_records_Inr [OF this assms(2)] show ?thesis .
qed

theorem postgres_reads_lack_row_ids_witness:
  "\<exists>r. pg_BySubject (sample_driver (Inr (render_wire sample_reply))) ''usr_1'' 0 0 5 0 = (Inr [r], 1) \<and>
     RowSeal r = ''00'' \<and> RowID r = []"
proof -
  let ?pg = "sample_driver (Inr (render_wire sample_reply))"
  let ?r = "\<lparr>RowID = [], Envelope = sample_envelope, RowSeal = ''00'', Seq = 1, SourceService = [], System = []\<rparr>"
  let ?row = "WObj [(''content'', WObj []), (''seal'', WStr ''00''), (''seq'', wire_int 1)]"
  have "Unmarshal (render_wire sample_reply) = Some sample_reply"
    by (intro Unmarshal_render) (simp add: sample_reply_def valid_ascii)
  then have "pg_answered (Inr (render_wire sample_reply)) (WObj [(''records'', WArr [?row])])"
    by (simp add: pg_answered_def sample_reply_def members_def)
  moreover have "QueryRow ?pg None q inp 0 = (Inr (render_wire sample_reply), 1)" for q inp
    by (simp add: sample_driver_def)
  moreover have "list_all2 (row_answer ?pg) [?row] [?r]"
    by (simp add: row_answer_def object_def members_def sample_driver_def in_int64_def) blast
  then obtain rows where "unmarshal_raw (decode_struct records_fields) [] (Some (WObj [(''records'', WArr [?row])])) = Some rows"
    "build_records ?pg rows = Inr [visible ?r]"
    using decode_records [of "WObj [(''records'', WArr [?row])]" "[?row]" ?pg "[?r]"] by (auto simp: object_def members_def)
  ultimately have "pg_BySubject ?pg ''usr_1'' 0 0 5 0 = (Inr [visible ?r], 1)"
    by (simp add: pg_BySubject_def with_data_call(1))
  with postgres_reads_lack_row_ids [OF this] show ?thesis by (intro exI [of _ "visible ?r"]) (simp add: visible_def)
qed

end
