(* ===== verification/Procedures.thy ===== *)
theory Procedures
  imports Postgres
begin

text \<open>
  What the service relies on of the stored procedures, which are deployed with the database and are
  not part of the repository: the locale \<open>procedures\<close> says of each how it reads its JSON argument,
  how it changes the abstract log of \<open>Store\<close>, and which object it answers with
  (\<^verbatim>\<open>README.md\<close>, "State and data model", and the comments of \<^verbatim>\<open>store.go\<close>). Under these
  laws the PostgreSQL store meets \<open>store_contract\<close> on every argument that JSON carries unchanged
  (\<open>checked\<close>). The laws can be met: a database that keeps its rows in the in-memory store and
  speaks JSON at its boundary satisfies them.
\<close>

section \<open>Reading the arguments\<close>

definition text_arg :: "(string \<times> wire) list \<Rightarrow> string \<Rightarrow> string option" where
  "text_arg kvs k = (case map_of kvs k of Some (WStr s) \<Rightarrow> Some s | _ \<Rightarrow> None)"

definition bool_arg :: "(string \<times> wire) list \<Rightarrow> string \<Rightarrow> bool option" where
  "bool_arg kvs k = (case map_of kvs k of Some (WBool b) \<Rightarrow> Some b | _ \<Rightarrow> None)"

definition int_arg :: "(string \<times> wire) list \<Rightarrow> string \<Rightarrow> int option" where
  "int_arg kvs k = (case map_of kvs k of Some (WNum l) \<Rightarrow> parse_int64 l | _ \<Rightarrow> None)"

definition time_arg :: "(string \<times> wire) list \<Rightarrow> string \<Rightarrow> time option" where
  "time_arg kvs k = (case map_of kvs k of Some (WStr s) \<Rightarrow> parse_rfc3339 s | _ \<Rightarrow> None)"

definition object_arg :: "(string \<times> wire) list \<Rightarrow> string \<Rightarrow> (string \<times> wire) list option" where
  "object_arg kvs k = (case map_of kvs k of Some (WObj x) \<Rightarrow> Some x | _ \<Rightarrow> None)"

text \<open>An absent argument has a default.\<close>

definition default_arg ::
    "((string \<times> wire) list \<Rightarrow> string \<Rightarrow> 'b option) \<Rightarrow> 'b \<Rightarrow> (string \<times> wire) list \<Rightarrow> string \<Rightarrow> 'b option" where
  "default_arg f x kvs k = (if map_of kvs k = None then Some x else f kvs k)"

definition row_arg :: "('p, 'a, 'r) pgx \<Rightarrow> (string \<times> wire) list \<Rightarrow> ('a, 'r) access_record option" where
  "row_arg pg kvs =
     do { v \<leftarrow> map_of kvs ''record''; e \<leftarrow> envelope_of_json pg v; l \<leftarrow> text_arg kvs ''seal'';
          src \<leftarrow> default_arg text_arg [] kvs ''source_service''; y \<leftarrow> default_arg text_arg [] kvs ''system'';
          Some \<lparr>RowID = [], Envelope = e, RowSeal = l, Seq = 0, SourceService = src, System = y\<rparr> }"

definition subject_arg :: "(string \<times> wire) list \<Rightarrow> (string \<times> time \<times> time \<times> int) option" where
  "subject_arg kvs =
     do { s \<leftarrow> text_arg kvs ''subject''; t0 \<leftarrow> default_arg time_arg 0 kvs ''from'';
          t1 \<leftarrow> default_arg time_arg 0 kvs ''to''; l \<leftarrow> default_arg int_arg 0 kvs ''limit''; Some (s, t0, t1, l) }"

definition checkpoint_arg :: "(string \<times> wire) list \<Rightarrow> checkpoint option" where
  "checkpoint_arg kvs =
     do { p \<leftarrow> text_arg kvs ''period''; n \<leftarrow> int_arg kvs ''row_count''; l \<leftarrow> text_arg kvs ''checkpoint_seal'';
          Some \<lparr>CpPeriod = p, RowCount = n, CpSeal = l, SealedAt = 0\<rparr> }"

definition hold_arg :: "(string \<times> wire) list \<Rightarrow> (string \<times> string \<times> string \<times> bool) option" where
  "hold_arg kvs =
     do { s \<leftarrow> text_arg kvs ''subject''; r \<leftarrow> text_arg kvs ''reason''; p \<leftarrow> text_arg kvs ''placed_by'';
          h \<leftarrow> bool_arg kvs ''hold''; Some (s, r, p, h) }"

definition evidence_arg :: "(string \<times> wire) list \<Rightarrow> VerifyEvent option" where
  "evidence_arg kvs =
     do { ev \<leftarrow> object_arg kvs ''event''; src \<leftarrow> text_arg kvs ''source_service'';
          t \<leftarrow> time_arg ev ''ts''; ip \<leftarrow> text_arg ev ''ip''; ua \<leftarrow> text_arg ev ''userAgent'';
          n \<leftarrow> int_arg ev ''sizeBytes''; h \<leftarrow> text_arg ev ''sha256''; v \<leftarrow> text_arg ev ''verdict'';
          c \<leftarrow> text_arg ev ''correlationId''; i \<leftarrow> text_arg ev ''sessionId'';
          Some \<lparr>TS = t, EvIP = ip, UserAgent = ua, SizeBytes = n, SHA256 = h, Verdict = v, CorrelationID = c,
            SessionID = i, EvSourceService = src\<rparr> }"

section \<open>The procedures\<close>

text \<open>A call changes the log as \<open>P\<close> says and answers with data, or fails and is rolled back.\<close>

definition effect ::
    "('p \<Rightarrow> bool) \<Rightarrow> ('p \<Rightarrow> 'x) \<Rightarrow> 'p \<Rightarrow> (wire \<Rightarrow> 'x \<Rightarrow> bool) \<Rightarrow> (pg_error + string) \<times> 'p \<Rightarrow> bool" where
  "effect I A s P r \<longleftrightarrow>
     (case r of (res, s') \<Rightarrow> I s' \<and> (pg_refused res \<and> A s' = A s \<or> (\<exists>d. pg_answered res d \<and> P d (A s'))))"

locale procedures =
  fixes pg :: "('p, 'a, 'r) pgx" and inv :: "'p \<Rightarrow> bool" and abs :: "'p \<Rightarrow> ('a, 'r) spec"
    and storable :: "('a, 'r) envelope \<Rightarrow> bool"
  assumes log_ok: "inv s \<Longrightarrow> spec_ok (abs s)"
    and envelope_codec: "storable e \<Longrightarrow> \<exists>x. envelope_json pg e = Some x \<and> wire_ok x \<and> envelope_of_json pg x = Some e"
    and append_record: "inv s \<Longrightarrow> Unmarshal inp = Some (WObj kvs) \<Longrightarrow> row_arg pg kvs = Some r \<Longrightarrow>
      effect inv abs s (\<lambda>d \<sigma>. \<exists>i b. object d [(''recordId'', WStr i), (''eventId'', WStr (EventID (Envelope r))), (''duplicate'', WBool b)] \<and>
          \<sigma> = spec_append r (abs s) \<and> (b \<longleftrightarrow> EventID (Envelope r) \<in> dom (log (abs s))))
        (QueryRow pg (Some w) (call_sql ''access_audit.append_record'') inp s)"
    and records_by_subject: "inv s \<Longrightarrow> Unmarshal inp = Some (WObj kvs) \<Longrightarrow> subject_arg kvs = Some (subj, t0, t1, lim) \<Longrightarrow>
      effect inv abs s (\<lambda>d \<sigma>. \<sigma> = abs s \<and> (\<exists>vs rs. object d [(''records'', WArr vs)] \<and>
          list_all2 (row_answer pg) vs rs \<and> subject_answer subj t0 t1 lim (abs s) rs))
        (QueryRow pg None (call_sql ''access_audit.records_by_subject'') inp s)"
    and seals_for_period: "inv s \<Longrightarrow> Unmarshal inp = Some (WObj kvs) \<Longrightarrow> text_arg kvs ''period'' = Some p \<Longrightarrow>
      effect inv abs s (\<lambda>d \<sigma>. \<sigma> = abs s \<and> (\<exists>ss. object d [(''seals'', WArr (map WStr ss)), (''count'', wire_int (int (length ss)))] \<and>
          in_int64 (int (length ss)) \<and> ss = spec_seals p (abs s)))
        (QueryRow pg None (call_sql ''access_audit.seals_for_period'') inp s)"
    and periods_pending: "inv s \<Longrightarrow> Unmarshal inp = Some (WObj kvs) \<Longrightarrow> text_arg kvs ''before'' = Some p \<Longrightarrow>
      effect inv abs s (\<lambda>d \<sigma>. \<sigma> = abs s \<and> (\<exists>ps. object d [(''periods'', WArr (map WStr ps))] \<and>
          set ps = spec_pending p (abs s) \<and> distinct ps))
        (QueryRow pg None (call_sql ''access_audit.periods_pending_checkpoint'') inp s)"
    and save_checkpoint: "inv s \<Longrightarrow> Unmarshal inp = Some (WObj kvs) \<Longrightarrow> checkpoint_arg kvs = Some cp \<Longrightarrow>
      effect inv abs s (\<lambda>d \<sigma>. \<exists>b. object d [(''created'', WBool b)] \<and> (\<exists>t. \<sigma> = spec_save (cp\<lparr>SealedAt := t\<rparr>) (abs s)) \<and>
          (b \<longleftrightarrow> CpPeriod cp \<notin> dom (cps (abs s))))
        (QueryRow pg (Some w) (call_sql ''access_audit.save_checkpoint'') inp s)"
    and load_checkpoint: "inv s \<Longrightarrow> Unmarshal inp = Some (WObj kvs) \<Longrightarrow> text_arg kvs ''period'' = Some p \<Longrightarrow>
      effect inv abs s (\<lambda>d \<sigma>. \<sigma> = abs s \<and> (\<exists>v. object d [(''checkpoint'', v)] \<and> checkpoint_answer v (cps (abs s) p)))
        (QueryRow pg None (call_sql ''access_audit.load_checkpoint'') inp s)"
    and set_legal_hold: "inv s \<Longrightarrow> Unmarshal inp = Some (WObj kvs) \<Longrightarrow> hold_arg kvs = Some (subj, reason, by_whom, h) \<Longrightarrow>
      effect inv abs s (\<lambda>d \<sigma>. \<sigma> = spec_hold subj h (abs s))
        (QueryRow pg None (call_sql ''access_audit.set_legal_hold'') inp s)"
    and purge_expired: "inv s \<Longrightarrow> Unmarshal inp = Some (WObj kvs) \<Longrightarrow> text_arg kvs ''cutoff'' = Some c \<Longrightarrow>
      effect inv abs s (\<lambda>d \<sigma>. \<sigma> = spec_purge c (abs s) \<and> (\<exists>g. purge_answer c (abs s) g \<and>
          in_int64 (Purged g) \<and> in_int64 (RetainedUnderHold g) \<and>
          object d [(''cutoff'', WStr c), (''purged'', wire_int (Purged g)), (''retainedUnderHold'', wire_int (RetainedUnderHold g))]))
        (QueryRow pg None (call_sql ''access_audit.purge_expired'') inp s)"
    and record_event: "inv s \<Longrightarrow> Unmarshal inp = Some (WObj kvs) \<Longrightarrow> evidence_arg kvs = Some ev \<Longrightarrow>
      effect inv abs s (\<lambda>d \<sigma>. \<sigma> = spec_record_evidence ev (abs s) \<and> (\<exists>i. object d [(''eventId'', WStr i)]))
        (QueryRow pg (Some w) (call_sql ''verify_audit.record_event'') inp s)"
    and sweep_retention: "inv s \<Longrightarrow> Unmarshal inp = Some (WObj kvs) \<Longrightarrow> int_arg kvs ''retention_days'' = Some days \<Longrightarrow>
      effect inv abs s (\<lambda>d \<sigma>. \<sigma> = spec_sweep (now w - days * day_ns) (abs s) \<and> (\<exists>c n. in_int64 n \<and>
          object d [(''cutoff'', WStr c), (''purged'', wire_int n)] \<and>
          n = int (length (evidence (abs s))) - int (length (evidence \<sigma>))))
        (QueryRow pg (Some w) (call_sql ''verify_audit.sweep_retention'') inp s)"
    and ping: "inv s \<Longrightarrow> pool_Ping pg s = (res, s') \<Longrightarrow> inv s' \<and> abs s' = abs s"

section \<open>Arguments that JSON carries\<close>

text \<open>Text that is not UTF-8 is replaced when it is marshalled, and a year beyond 9999 has no
  RFC 3339 form. \<open>checked\<close> is the store restricted to the other arguments.\<close>

definition guarded :: "bool \<Rightarrow> ('p \<Rightarrow> (error + 'x) \<times> 'p) \<Rightarrow> 'p \<Rightarrow> (error + 'x) \<times> 'p" where
  "guarded ok f s = (if ok then f s else (Inl (StoreError ''not representable''), s))"

definition dated :: "time \<Rightarrow> bool" where
  "dated t \<longleftrightarrow> IsZero t \<or> common_era t"

definition evidence_ok :: "VerifyEvent \<Rightarrow> bool" where
  "evidence_ok ev \<longleftrightarrow> common_era (TS ev) \<and> in_int64 (SizeBytes ev) \<and>
     list_all valid_utf8 [EvIP ev, UserAgent ev, SHA256 ev, Verdict ev, CorrelationID ev, SessionID ev, EvSourceService ev]"

definition checked :: "(('a, 'r) envelope \<Rightarrow> bool) \<Rightarrow> ('p, 'a, 'r) Store \<Rightarrow> ('p, 'a, 'r) Store" where
  "checked storable S =
     \<lparr>Append = \<lambda>w r. guarded (storable (Envelope r) \<and> list_all valid_utf8 [RowSeal r, SourceService r, System r]) (Append S w r),
      BySubject = \<lambda>subject t0 t1 limit.
        guarded (valid_utf8 subject \<and> dated t0 \<and> dated t1 \<and> in_int64 limit) (BySubject S subject t0 t1 limit),
      SealsForPeriod = \<lambda>p. guarded (valid_utf8 p) (SealsForPeriod S p),
      PendingCheckpointPeriods = \<lambda>p. guarded (valid_utf8 p) (PendingCheckpointPeriods S p),
      SaveCheckpoint = \<lambda>w cp. guarded (valid_utf8 (CpPeriod cp) \<and> valid_utf8 (CpSeal cp) \<and> in_int64 (RowCount cp))
        (SaveCheckpoint S w cp),
      LoadCheckpoint = \<lambda>p. guarded (valid_utf8 p) (LoadCheckpoint S p),
      SetLegalHold = \<lambda>subject reason placedBy hold.
        guarded (list_all valid_utf8 [subject, reason, placedBy]) (SetLegalHold S subject reason placedBy hold),
      PurgeExpired = \<lambda>cutoff. guarded (valid_utf8 cutoff) (PurgeExpired S cutoff),
      AppendVerifyEvent = \<lambda>w ev. guarded (evidence_ok ev) (AppendVerifyEvent S w ev),
      SweepVerifyExpired = \<lambda>w days. guarded (in_int64 days) (SweepVerifyExpired S w days),
      Ping = Ping S\<rparr>"

section \<open>The client of the procedures\<close>

lemma map_of_wire_map: "distinct (map fst kvs) \<Longrightarrow> map_of (sort_key fst kvs) = map_of kvs"
  by (intro map_of_inject_set [THEN iffD2]) (simp_all add: distinct_map)

lemma wire_map_ok [simp]: "wire_ok (wire_map kvs) \<longleftrightarrow> (\<forall>(k, v) \<in> set kvs. valid_utf8 k \<and> wire_ok v)"
  by (simp add: wire_map_def)

lemma Unmarshal_map:
  "\<forall>(k, v) \<in> set kvs. valid_utf8 k \<and> wire_ok v \<Longrightarrow> Unmarshal (render_wire (wire_map kvs)) = Some (WObj (sort_key fst kvs))"
  using Unmarshal_render [of "wire_map kvs"] by (simp add: wire_map_def)

lemmas arg_defs = text_arg_def bool_arg_def int_arg_def time_arg_def object_arg_def default_arg_def

lemma subject_input_arg:
  assumes "valid_utf8 subj" and "dated t0" and "dated t1" and "in_int64 lim"
  obtains kvs where "Unmarshal (render_wire (subject_input subj t0 t1 lim)) = Some (WObj kvs)"
    "subject_arg kvs = Some (subj, t0, t1, if lim > 0 then lim else 0)"
proof
  define xs where "xs = [(''subject'', WStr subj)] @
       (if IsZero t0 then [] else [(''from'', WStr (format_rfc3339nano t0))]) @
       (if IsZero t1 then [] else [(''to'', WStr (format_rfc3339nano t1))]) @
       (if lim > 0 then [(''limit'', wire_int lim)] else [])"
  have d: "distinct (map fst xs)" by (simp add: xs_def)
  have "\<forall>(k, v) \<in> set xs. valid_utf8 k \<and> wire_ok v" using assms(1) by (auto simp: xs_def valid_ascii)
  then show "Unmarshal (render_wire (subject_input subj t0 t1 lim)) = Some (WObj (sort_key fst xs))"
    unfolding subject_input_def xs_def [symmetric] by (rule Unmarshal_map)
  have m: "map_of xs ''subject'' = Some (WStr subj)"
    "map_of xs ''from'' = (if IsZero t0 then None else Some (WStr (format_rfc3339nano t0)))"
    "map_of xs ''to'' = (if IsZero t1 then None else Some (WStr (format_rfc3339nano t1)))"
    "map_of xs ''limit'' = (if lim > 0 then Some (wire_int lim) else None)"
    by (simp_all add: xs_def)
  have "default_arg time_arg 0 ys k = Some t"
    if "map_of ys k = (if IsZero t then None else Some (WStr (format_rfc3339nano t)))" "dated t" for ys k t
    using that by (auto simp: default_arg_def time_arg_def dated_def common_era_def parse_rfc3339_format IsZero_def)
  moreover have "default_arg int_arg 0 (sort_key fst xs) ''limit'' = Some (if lim > 0 then lim else 0)"
    using assms(4) by (simp add: default_arg_def int_arg_def map_of_wire_map [OF d] m) (simp add: wire_int_def parse_int64_wire)
  ultimately show "subject_arg (sort_key fst xs) = Some (subj, t0, t1, if lim > 0 then lim else 0)"
    using assms(2,3) m by (simp add: subject_arg_def text_arg_def map_of_wire_map [OF d])
qed

lemma text_input_arg:
  assumes "valid_utf8 k" and "valid_utf8 v"
  shows "Unmarshal (render_wire (wire_map [(k, WStr v)])) = Some (WObj [(k, WStr v)])" "text_arg [(k, WStr v)] k = Some v"
  using Unmarshal_map [of "[(k, WStr v)]"] assms by (simp_all add: text_arg_def)

lemma int_input_arg:
  assumes "valid_utf8 k" and "in_int64 n"
  shows "Unmarshal (render_wire (wire_map [(k, wire_int n)])) = Some (WObj [(k, wire_int n)])" "int_arg [(k, wire_int n)] k = Some n"
  using Unmarshal_map [of "[(k, wire_int n)]"] assms(1)
  by simp (simp add: int_arg_def wire_int_def parse_int64_wire [OF assms(2)])

lemma append_input_arg:
  assumes "envelope_json pg (Envelope r) = Some x" and "wire_ok x" and "envelope_of_json pg x = Some (Envelope r)"
    and "list_all valid_utf8 [RowSeal r, SourceService r, System r]"
  obtains kvs where "appendInput pg r = Some (WObj kvs)" "Unmarshal (render_wire (WObj kvs)) = Some (WObj kvs)"
    "row_arg pg kvs = Some (r\<lparr>RowID := [], Seq := 0\<rparr>)"
proof
  define kvs where "kvs = [(''record'', x), (''seal'', WStr (RowSeal r))] @
    omit_text ''source_service'' (SourceService r) @ omit_text ''system'' (System r)"
  show "appendInput pg r = Some (WObj kvs)" by (simp add: appendInput_def assms(1) kvs_def)
  show "Unmarshal (render_wire (WObj kvs)) = Some (WObj kvs)"
    using assms(2,4) by (intro Unmarshal_render) (auto simp: kvs_def omit_text_def valid_ascii)
  show "row_arg pg kvs = Some (r\<lparr>RowID := [], Seq := 0\<rparr>)"
    by (simp add: kvs_def row_arg_def arg_defs omit_text_def assms(3))
qed

lemma checkpoint_input_arg:
  assumes "valid_utf8 (CpPeriod cp)" and "valid_utf8 (CpSeal cp)" and "in_int64 (RowCount cp)"
  obtains kvs where "Unmarshal (render_wire (checkpoint_input cp)) = Some (WObj kvs)"
    "checkpoint_arg kvs = Some (cp\<lparr>SealedAt := 0\<rparr>)"
proof
  let ?xs = "[(''period'', WStr (CpPeriod cp)), (''row_count'', wire_int (RowCount cp)), (''checkpoint_seal'', WStr (CpSeal cp))]"
  show "Unmarshal (render_wire (checkpoint_input cp)) = Some (WObj (sort_key fst ?xs))"
    unfolding checkpoint_input_def using assms by (intro Unmarshal_map) (simp add: valid_ascii)
  have "map_of (sort_key fst ?xs) = map_of ?xs" by (intro map_of_wire_map) simp
  then show "checkpoint_arg (sort_key fst ?xs) = Some (cp\<lparr>SealedAt := 0\<rparr>)"
    unfolding checkpoint_arg_def arg_defs using assms(3) by (simp only:) (simp add: wire_int_def parse_int64_wire)
qed

lemma hold_input_arg:
  assumes "list_all valid_utf8 [subj, reason, by_whom]"
  obtains kvs where
    "Unmarshal (render_wire (wire_map [(''subject'', WStr subj), (''hold'', WBool h), (''reason'', WStr reason),
       (''placed_by'', WStr by_whom)])) = Some (WObj kvs)"
    "hold_arg kvs = Some (subj, reason, by_whom, h)"
proof
  let ?xs = "[(''subject'', WStr subj), (''hold'', WBool h), (''reason'', WStr reason), (''placed_by'', WStr by_whom)]"
  show "Unmarshal (render_wire (wire_map ?xs)) = Some (WObj (sort_key fst ?xs))"
    using assms by (intro Unmarshal_map) (simp add: valid_ascii)
  have "map_of (sort_key fst ?xs) = map_of ?xs" by (intro map_of_wire_map) simp
  then show "hold_arg (sort_key fst ?xs) = Some (subj, reason, by_whom, h)"
    unfolding hold_arg_def arg_defs by (simp only:) simp
qed

lemma evidence_input_arg:
  assumes "evidence_ok ev"
  obtains kvs where "Unmarshal (render_wire (evidence_input ev)) = Some (WObj kvs)" "evidence_arg kvs = Some ev"
proof
  let ?es = "[(''ts'', WStr (format_rfc3339nano (TS ev))), (''ip'', WStr (EvIP ev)), (''userAgent'', WStr (UserAgent ev)),
    (''sizeBytes'', wire_int (SizeBytes ev)), (''sha256'', WStr (SHA256 ev)), (''verdict'', WStr (Verdict ev)),
    (''correlationId'', WStr (CorrelationID ev)), (''sessionId'', WStr (SessionID ev))]"
  let ?xs = "[(''event'', wire_map ?es), (''source_service'', WStr (EvSourceService ev))]"
  have "wire_ok (wire_map ?es)" using assms by (simp add: evidence_ok_def valid_ascii)
  then show "Unmarshal (render_wire (evidence_input ev)) = Some (WObj (sort_key fst ?xs))"
    unfolding evidence_input_def using assms by (intro Unmarshal_map) (simp add: valid_ascii evidence_ok_def)
  have xs: "map_of (sort_key fst ?xs) = map_of ?xs" by (intro map_of_wire_map) simp
  have es: "map_of (sort_key fst ?es) = map_of ?es" by (intro map_of_wire_map) simp
  have "object_arg (sort_key fst ?xs) ''event'' = Some (sort_key fst ?es)"
    "text_arg (sort_key fst ?xs) ''source_service'' = Some (EvSourceService ev)"
    unfolding arg_defs xs by (simp_all add: wire_map_def)
  moreover have "time_arg (sort_key fst ?es) ''ts'' = Some (TS ev)" "int_arg (sort_key fst ?es) ''sizeBytes'' = Some (SizeBytes ev)"
    using assms unfolding arg_defs es evidence_ok_def common_era_def
    by (simp_all add: wire_int_def parse_int64_wire parse_rfc3339_format)
  moreover have "text_arg (sort_key fst ?es) ''ip'' = Some (EvIP ev)" "text_arg (sort_key fst ?es) ''userAgent'' = Some (UserAgent ev)"
    "text_arg (sort_key fst ?es) ''sha256'' = Some (SHA256 ev)" "text_arg (sort_key fst ?es) ''verdict'' = Some (Verdict ev)"
    "text_arg (sort_key fst ?es) ''correlationId'' = Some (CorrelationID ev)"
    "text_arg (sort_key fst ?es) ''sessionId'' = Some (SessionID ev)"
    unfolding arg_defs es by simp_all
  ultimately show "evidence_arg (sort_key fst ?xs) = Some ev" unfolding evidence_arg_def by simp
qed

lemma call_effect:
  assumes "effect I A s P (QueryRow pg w (call_sql proc) (render_wire x) s)"
    and "with_data f (call pg w proc (Some x) s) = (res, s')"
    and "\<And>d \<sigma>. P d \<sigma> \<Longrightarrow> \<exists>y. f (Some d) = Inr y \<and> Q y \<sigma>"
  shows "I s' \<and> (case res of Inl e \<Rightarrow> A s' = A s | Inr y \<Rightarrow> Q y (A s'))"
proof -
  obtain out t where q: "QueryRow pg w (call_sql proc) (render_wire x) s = (out, t)" by fastforce
  with assms(1) have t: "I t" "pg_refused out \<and> A t = A s \<or> (\<exists>d. pg_answered out d \<and> P d (A t))"
    by (simp_all add: effect_def)
  from t(2) show ?thesis
  proof (elim disjE exE conjE)
    assume "pg_refused out" and "A t = A s"
    with with_data_call(2) [OF q, of f] assms(2) t(1) show ?thesis by auto
  next
    fix d
    assume "pg_answered out d" and "P d (A t)"
    with with_data_call(1) [OF q, of d f] assms(2) assms(3) [of d "A t"] t(1) show ?thesis by auto
  qed
qed

lemma guarded_cases:
  assumes "guarded ok f s = (res, s')"
  obtains e where "res = Inl e" "s' = s" | "ok" "f s = (res, s')"
  using assms by (cases ok) (auto simp: guarded_def)

lemma checked_ops [simp]:
  "Append (checked c (postgres_store pg)) w r =
     guarded (c (Envelope r) \<and> list_all valid_utf8 [RowSeal r, SourceService r, System r]) (pg_Append pg w r)"
  "BySubject (checked c (postgres_store pg)) subject t0 t1 limit =
     guarded (valid_utf8 subject \<and> dated t0 \<and> dated t1 \<and> in_int64 limit) (pg_BySubject pg subject t0 t1 limit)"
  "SealsForPeriod (checked c (postgres_store pg)) p = guarded (valid_utf8 p) (pg_SealsForPeriod pg p)"
  "PendingCheckpointPeriods (checked c (postgres_store pg)) p = guarded (valid_utf8 p) (pg_PendingCheckpointPeriods pg p)"
  "SaveCheckpoint (checked c (postgres_store pg)) w cp =
     guarded (valid_utf8 (CpPeriod cp) \<and> valid_utf8 (CpSeal cp) \<and> in_int64 (RowCount cp)) (pg_SaveCheckpoint pg w cp)"
  "LoadCheckpoint (checked c (postgres_store pg)) p = guarded (valid_utf8 p) (pg_LoadCheckpoint pg p)"
  "SetLegalHold (checked c (postgres_store pg)) subject reason by_whom h =
     guarded (list_all valid_utf8 [subject, reason, by_whom]) (pg_SetLegalHold pg subject reason by_whom h)"
  "PurgeExpired (checked c (postgres_store pg)) p = guarded (valid_utf8 p) (pg_PurgeExpired pg p)"
  "AppendVerifyEvent (checked c (postgres_store pg)) w ev = guarded (evidence_ok ev) (pg_AppendVerifyEvent pg w ev)"
  "SweepVerifyExpired (checked c (postgres_store pg)) w days = guarded (in_int64 days) (pg_SweepVerifyExpired pg w days)"
  "Ping (checked c (postgres_store pg)) = pg_Ping pg"
  by (simp_all add: checked_def postgres_store_def)

context procedures
begin

lemma pg_Append_law:
  assumes "inv s" and "storable (Envelope r)" and "list_all valid_utf8 [RowSeal r, SourceService r, System r]"
    and "pg_Append pg w r s = (res, s')"
  shows "inv s' \<and> (case res of Inl e \<Rightarrow> abs s' = abs s
    | Inr a \<Rightarrow> abs s' = spec_append r (abs s) \<and> ResEventID a = EventID (Envelope r) \<and>
        (Duplicate a \<longleftrightarrow> EventID (Envelope r) \<in> dom (log (abs s))))"
proof -
  obtain x where "envelope_json pg (Envelope r) = Some x" "wire_ok x" "envelope_of_json pg x = Some (Envelope r)"
    using envelope_codec [OF assms(2)] by blast
  from append_input_arg [OF this assms(3)] obtain kvs where kvs: "appendInput pg r = Some (WObj kvs)"
    "Unmarshal (render_wire (WObj kvs)) = Some (WObj kvs)" "row_arg pg kvs = Some (r\<lparr>RowID := [], Seq := 0\<rparr>)" by metis
  have row: "spec_append (r\<lparr>RowID := [], Seq := 0\<rparr>) = spec_append r" by (simp add: fun_eq_iff spec_append_def Let_def)
  show ?thesis
    by (rule call_effect [OF append_record [OF assms(1) kvs(2,3)] assms(4) [unfolded pg_Append_def kvs(1)]])
      (auto simp: decode_append decoded_def row)
qed

lemma pg_BySubject_law:
  assumes "inv s" and "valid_utf8 subj" and "dated t0" and "dated t1" and "in_int64 lim"
    and "pg_BySubject pg subj t0 t1 lim s = (res, s')"
  shows "inv s' \<and> (case res of Inl e \<Rightarrow> abs s' = abs s
    | Inr rs \<Rightarrow> abs s' = abs s \<and> subject_answer subj t0 t1 lim (abs s) rs)"
proof -
  from subject_input_arg [OF assms(2-5)] obtain kvs where kvs:
    "Unmarshal (render_wire (subject_input subj t0 t1 lim)) = Some (WObj kvs)"
    "subject_arg kvs = Some (subj, t0, t1, if lim > 0 then lim else 0)" by metis
  show ?thesis
  proof (rule call_effect [OF records_by_subject [OF assms(1) kvs] assms(6) [unfolded pg_BySubject_def]])
    fix d \<sigma>
    assume "\<sigma> = abs s \<and> (\<exists>vs rs. object d [(''records'', WArr vs)] \<and> list_all2 (row_answer pg) vs rs \<and>
      subject_answer subj t0 t1 (if lim > 0 then lim else 0) (abs s) rs)"
    then obtain vs rs where d: "object d [(''records'', WArr vs)]" "list_all2 (row_answer pg) vs rs"
      and a: "\<sigma> = abs s" "subject_answer subj t0 t1 lim (abs s) rs"
      by (cases "lim > 0") (auto simp: subject_answer_def)
    have "subject_answer subj t0 t1 lim (abs s) (map visible rs)"
      using a(2) by (simp add: subject_answer_def visible_def image_image shown_def comp_def)
    with decode_records [OF d] a(1)
    show "\<exists>y. (case unmarshal_raw (decode_struct records_fields) [] (Some d) of
        None \<Rightarrow> Inl (StoreError ''store: by_subject: decode'') | Some rows \<Rightarrow> build_records pg rows) = Inr y \<and>
      \<sigma> = abs s \<and> subject_answer subj t0 t1 lim (abs s) y"
      by auto
  qed
qed

lemma pg_SealsForPeriod_law:
  assumes "inv s" and "valid_utf8 p" and "pg_SealsForPeriod pg p s = (res, s')"
  shows "inv s' \<and> (case res of Inl e \<Rightarrow> abs s' = abs s
    | Inr x \<Rightarrow> abs s' = abs s \<and> fst x = spec_seals p (abs s) \<and> snd x = int (length (fst x)))"
  by (rule call_effect [OF seals_for_period [OF assms(1) text_input_arg [OF _ assms(2)]] assms(3) [unfolded pg_SealsForPeriod_def]])
    (auto simp: decoded_def decode_seals valid_ascii)

lemma pg_PendingCheckpointPeriods_law:
  assumes "inv s" and "valid_utf8 p" and "pg_PendingCheckpointPeriods pg p s = (res, s')"
  shows "inv s' \<and> (case res of Inl e \<Rightarrow> abs s' = abs s
    | Inr ps \<Rightarrow> abs s' = abs s \<and> set ps = spec_pending p (abs s) \<and> distinct ps)"
  by (rule call_effect [OF periods_pending [OF assms(1) text_input_arg [OF _ assms(2)]]
        assms(3) [unfolded pg_PendingCheckpointPeriods_def]])
    (auto simp: decoded_def decode_periods valid_ascii)

lemma pg_LoadCheckpoint_law:
  assumes "inv s" and "valid_utf8 p" and "pg_LoadCheckpoint pg p s = (res, s')"
  shows "inv s' \<and> (case res of Inl e \<Rightarrow> abs s' = abs s | Inr c \<Rightarrow> abs s' = abs s \<and> c = cps (abs s) p)"
  by (rule call_effect [OF load_checkpoint [OF assms(1) text_input_arg [OF _ assms(2)]] assms(3) [unfolded pg_LoadCheckpoint_def]])
    (auto simp: decoded_def decode_load valid_ascii)

lemma pg_PurgeExpired_law:
  assumes "inv s" and "valid_utf8 c" and "pg_PurgeExpired pg c s = (res, s')"
  shows "inv s' \<and> (case res of Inl e \<Rightarrow> abs s' = abs s
    | Inr g \<Rightarrow> abs s' = spec_purge c (abs s) \<and> purge_answer c (abs s) g)"
  by (rule call_effect [OF purge_expired [OF assms(1) text_input_arg [OF _ assms(2)]] assms(3) [unfolded pg_PurgeExpired_def]])
    (auto simp: decoded_def decode_purge purge_answer_def valid_ascii)

lemma pg_SaveCheckpoint_law:
  assumes "inv s" and "valid_utf8 (CpPeriod cp)" and "valid_utf8 (CpSeal cp)" and "in_int64 (RowCount cp)"
    and "pg_SaveCheckpoint pg w cp s = (res, s')"
  shows "inv s' \<and> (case res of Inl e \<Rightarrow> abs s' = abs s
    | Inr b \<Rightarrow> (\<exists>t. abs s' = spec_save (cp\<lparr>SealedAt := t\<rparr>) (abs s)) \<and> (b \<longleftrightarrow> CpPeriod cp \<notin> dom (cps (abs s))))"
proof -
  from checkpoint_input_arg [OF assms(2-4)] obtain kvs where kvs:
    "Unmarshal (render_wire (checkpoint_input cp)) = Some (WObj kvs)" "checkpoint_arg kvs = Some (cp\<lparr>SealedAt := 0\<rparr>)" by metis
  show ?thesis
    by (rule call_effect [OF save_checkpoint [OF assms(1) kvs] assms(5) [unfolded pg_SaveCheckpoint_def]])
      (auto simp: decoded_def decode_created)
qed

lemma pg_SetLegalHold_law:
  assumes "inv s" and "list_all valid_utf8 [subj, reason, by_whom]" and "pg_SetLegalHold pg subj reason by_whom h s = (res, s')"
  shows "inv s' \<and> (case res of Inl e \<Rightarrow> abs s' = abs s | Inr u \<Rightarrow> abs s' = spec_hold subj h (abs s))"
proof -
  from hold_input_arg [OF assms(2)] obtain kvs where kvs:
    "Unmarshal (render_wire (wire_map [(''subject'', WStr subj), (''hold'', WBool h), (''reason'', WStr reason),
       (''placed_by'', WStr by_whom)])) = Some (WObj kvs)"
    "hold_arg kvs = Some (subj, reason, by_whom, h)" by blast
  show ?thesis
    by (rule call_effect [OF set_legal_hold [OF assms(1) kvs] assms(3) [unfolded pg_SetLegalHold_def]]) simp
qed

lemma pg_AppendVerifyEvent_law:
  assumes "inv s" and "evidence_ok ev" and "pg_AppendVerifyEvent pg w ev s = (res, s')"
  shows "inv s' \<and> (case res of Inl e \<Rightarrow> abs s' = abs s | Inr i \<Rightarrow> abs s' = spec_record_evidence ev (abs s))"
proof -
  from evidence_input_arg [OF assms(2)] obtain kvs where kvs:
    "Unmarshal (render_wire (evidence_input ev)) = Some (WObj kvs)" "evidence_arg kvs = Some ev" by metis
  show ?thesis
    by (rule call_effect [OF record_event [OF assms(1) kvs] assms(3) [unfolded pg_AppendVerifyEvent_def]])
      (auto simp: decoded_def decode_event_id)
qed

lemma pg_SweepVerifyExpired_law:
  assumes "inv s" and "in_int64 days" and "pg_SweepVerifyExpired pg w days s = (res, s')"
  shows "inv s' \<and> (case res of Inl e \<Rightarrow> abs s' = abs s
    | Inr v \<Rightarrow> abs s' = spec_sweep (now w - days * day_ns) (abs s) \<and>
        SweepPurged v = int (length (evidence (abs s))) - int (length (evidence (abs s'))))"
  by (rule call_effect [OF sweep_retention [OF assms(1) int_input_arg [OF _ assms(2)]] assms(3) [unfolded pg_SweepVerifyExpired_def],
        where Q = "\<lambda>v \<sigma>. \<sigma> = spec_sweep (now w - days * day_ns) (abs s) \<and>
          SweepPurged v = int (length (evidence (abs s))) - int (length (evidence \<sigma>))"])
    (auto simp: decoded_def decode_sweep valid_ascii)

end

sublocale procedures \<subseteq> store: store_contract "checked storable (postgres_store pg)" inv abs
  apply unfold_locales
  subgoal by (rule log_ok)
  subgoal unfolding checked_ops by (erule guarded_cases) (simp, blast dest: pg_Append_law)
  subgoal unfolding checked_ops
    by (erule guarded_cases) (simp, force dest: pg_BySubject_law split: sum.splits)
  subgoal unfolding checked_ops
    by (erule guarded_cases) (simp, force dest: pg_SealsForPeriod_law split: sum.splits)
  subgoal unfolding checked_ops
    by (erule guarded_cases) (simp, force dest: pg_PendingCheckpointPeriods_law split: sum.splits)
  subgoal unfolding checked_ops by (erule guarded_cases) (simp, blast dest: pg_SaveCheckpoint_law)
  subgoal unfolding checked_ops
    by (erule guarded_cases) (simp, force dest: pg_LoadCheckpoint_law split: sum.splits)
  subgoal unfolding checked_ops by (erule guarded_cases) (simp, blast dest: pg_SetLegalHold_law)
  subgoal unfolding checked_ops by (erule guarded_cases) (simp, blast dest: pg_PurgeExpired_law)
  subgoal unfolding checked_ops by (erule guarded_cases) (simp, blast dest: pg_AppendVerifyEvent_law)
  subgoal unfolding checked_ops by (erule guarded_cases) (simp, blast dest: pg_SweepVerifyExpired_law)
  subgoal unfolding checked_ops pg_Ping_def by (rule ping)
  done

context procedures
begin

lemma contract: "store_contract (checked storable (postgres_store pg)) inv abs"
  by unfold_locales

end

section \<open>Properties\<close>

text \<open>C16: over procedures that behave as documented, the PostgreSQL store refines the abstract
  append-only log on every argument that JSON carries unchanged: what an operation sends is read as
  its arguments, the log changes exactly as the operation's specification says, the decoded answer
  is the one the contract promises, and an error leaves the log as it was.\<close>

theorem postgres_refines_log:
  assumes "procedures pg I A storable"
  shows "store_contract (checked storable (postgres_store pg)) I A"
  by (rule procedures.contract [OF assms])

end
