(* ===== verification/Reference_DB.thy ===== *)
theory Reference_DB
  imports Procedures Memory
begin

text \<open>
  A database that satisfies the laws of \<open>procedures\<close>: it keeps its rows in the in-memory store of
  \<open>Memory\<close>, reads its JSON arguments, and commits only when its answer can be written as JSON;
  otherwise it returns a structured error and changes nothing. Envelopes carry strings as actor and
  resource. It stands for the deployed database only in showing that the laws are consistent and
  that a store behind them does work: the PostgreSQL store on top of it appends what the in-memory
  store appends.
\<close>

section \<open>Envelopes as JSON\<close>

fun attr_json :: "json \<Rightarrow> wire" where
  "attr_json JNull = WNull"
| "attr_json (JBool b) = WBool b"
| "attr_json (JNum n) = WNum (decimal (unat n))"
| "attr_json (JStr s) = WStr s"
| "attr_json (JArr xs) = WArr (map attr_json xs)"
| "attr_json (JObj kvs) = WObj (map (\<lambda>(k, v). (k, attr_json v)) kvs)"

fun attr_of :: "wire \<Rightarrow> json" where
  "attr_of WNull = JNull"
| "attr_of (WBool b) = JBool b"
| "attr_of (WNum l) = JNum (of_nat (number l))"
| "attr_of (WStr s) = JStr s"
| "attr_of (WArr vs) = JArr (map attr_of vs)"
| "attr_of (WObj kvs) = JObj (map (\<lambda>(k, v). (k, attr_of v)) kvs)"

definition opt_json :: "string option \<Rightarrow> wire" where
  "opt_json x = (case x of None \<Rightarrow> WNull | Some s \<Rightarrow> WStr s)"

definition opt_of :: "wire \<Rightarrow> string option" where
  "opt_of v = (case v of WStr s \<Rightarrow> Some s | _ \<Rightarrow> None)"

definition strings_of :: "wire \<Rightarrow> string list option" where
  "strings_of v = (case v of WArr vs \<Rightarrow> decode_elems decode_string [] vs | _ \<Rightarrow> None)"

definition ref_json :: "(string, string) envelope \<Rightarrow> wire" where
  "ref_json e = WObj
     [(''event_id'', WStr (EventID e)), (''occurred_at'', WStr (format_rfc3339nano (OccurredAt e))),
      (''category'', WArr (map WStr (Categories e))), (''event_type'', WStr (EventType e)),
      (''actor'', opt_json (Actor e)), (''data_subjects'', WArr (map WStr (DataSubjects e))),
      (''resource'', opt_json (Resource e)), (''operation'', WStr (Operation e)),
      (''lawful_basis'', WStr (LawfulBasis e)), (''purpose'', WStr (Purpose e)), (''outcome'', WStr (Outcome e)),
      (''ip'', WStr (IP e)), (''device'', WStr (Device e)), (''attributes'', attr_json (JObj (Attributes e)))]"

definition ref_fields :: "(string \<times> wire) list \<Rightarrow> (string, string) envelope option" where
  "ref_fields kvs =
     do { i \<leftarrow> text_arg kvs ''event_id''; t \<leftarrow> time_arg kvs ''occurred_at'';
          cs \<leftarrow> Option.bind (map_of kvs ''category'') strings_of; ty \<leftarrow> text_arg kvs ''event_type'';
          a \<leftarrow> map_of kvs ''actor''; ds \<leftarrow> Option.bind (map_of kvs ''data_subjects'') strings_of;
          r \<leftarrow> map_of kvs ''resource''; op \<leftarrow> text_arg kvs ''operation''; lb \<leftarrow> text_arg kvs ''lawful_basis'';
          p \<leftarrow> text_arg kvs ''purpose''; oc \<leftarrow> text_arg kvs ''outcome''; ip \<leftarrow> text_arg kvs ''ip'';
          dv \<leftarrow> text_arg kvs ''device''; at \<leftarrow> object_arg kvs ''attributes'';
          Some \<lparr>EventID = i, OccurredAt = t, Categories = cs, EventType = ty, Actor = opt_of a, DataSubjects = ds,
            Resource = opt_of r, Operation = op, LawfulBasis = lb, Purpose = p, Outcome = oc, IP = ip, Device = dv,
            Attributes = map (\<lambda>(k, v). (k, attr_of v)) at\<rparr> }"

definition ref_of_json :: "wire \<Rightarrow> (string, string) envelope option" where
  "ref_of_json v = (case v of WObj kvs \<Rightarrow> ref_fields kvs | _ \<Rightarrow> None)"

section \<open>The procedures\<close>

type_synonym ref_db = "(string, string) Memory"

definition ref_codec :: "(ref_db, string, string) pgx" where
  "ref_codec =
     \<lparr>QueryRow = (\<lambda>w q inp m. (Inl (ConnError ''closed''), m)), pool_Ping = (\<lambda>m. (Inr (), m)), pool_Close = (\<lambda>m. m),
      envelope_json = (\<lambda>e. Some (ref_json e)), envelope_of_json = ref_of_json\<rparr>"

definition rereadable :: "(string, string) envelope \<Rightarrow> bool" where
  "rereadable e \<longleftrightarrow> ref_of_json (ref_json e) = Some e"

definition row_json :: "(string, string) access_record \<Rightarrow> wire" where
  "row_json r = WObj [(''content'', ref_json (Envelope r)), (''seal'', WStr (RowSeal r)), (''seq'', wire_int (Seq r))]"

definition checkpoint_json :: "checkpoint \<Rightarrow> wire" where
  "checkpoint_json cp = WObj
     [(''period'', WStr (CpPeriod cp)), (''rowCount'', wire_int (RowCount cp)), (''checkpointSeal'', WStr (CpSeal cp)),
      (''sealedAt'', WStr (format_rfc3339nano (SealedAt cp)))]"

definition ref_append :: "world \<Rightarrow> (string \<times> wire) list \<Rightarrow> ref_db \<Rightarrow> (wire \<times> ref_db) option" where
  "ref_append w kvs m =
     do { r \<leftarrow> row_arg ref_codec kvs;
          case mem_Append w r m of
            (Inr a, m') \<Rightarrow>
              Some (WObj [(''recordId'', WStr (RecordID a)), (''eventId'', WStr (ResEventID a)), (''duplicate'', WBool (Duplicate a))], m')
          | _ \<Rightarrow> None }"

definition ref_records :: "(string \<times> wire) list \<Rightarrow> ref_db \<Rightarrow> (wire \<times> ref_db) option" where
  "ref_records kvs m =
     do { (s, t0, t1, l) \<leftarrow> subject_arg kvs;
          case mem_BySubject s t0 t1 (min l read_cap) m of
            (Inr rs, m') \<Rightarrow>
              if list_all (\<lambda>r. rereadable (Envelope r) \<and> in_int64 (Seq r)) rs
              then Some (WObj [(''records'', WArr (map row_json rs))], m') else None
          | _ \<Rightarrow> None }"

definition ref_seals :: "(string \<times> wire) list \<Rightarrow> ref_db \<Rightarrow> (wire \<times> ref_db) option" where
  "ref_seals kvs m =
     do { p \<leftarrow> text_arg kvs ''period'';
          case mem_SealsForPeriod p m of
            (Inr (ss, n), m') \<Rightarrow>
              if in_int64 n then Some (WObj [(''seals'', WArr (map WStr ss)), (''count'', wire_int n)], m') else None
          | _ \<Rightarrow> None }"

definition ref_pending :: "(string \<times> wire) list \<Rightarrow> ref_db \<Rightarrow> (wire \<times> ref_db) option" where
  "ref_pending kvs m =
     do { p \<leftarrow> text_arg kvs ''before'';
          case mem_PendingCheckpointPeriods p m of
            (Inr ps, m') \<Rightarrow> Some (WObj [(''periods'', WArr (map WStr ps))], m')
          | _ \<Rightarrow> None }"

definition ref_save :: "world \<Rightarrow> (string \<times> wire) list \<Rightarrow> ref_db \<Rightarrow> (wire \<times> ref_db) option" where
  "ref_save w kvs m =
     do { cp \<leftarrow> checkpoint_arg kvs;
          case mem_SaveCheckpoint w cp m of
            (Inr b, m') \<Rightarrow> Some (WObj [(''created'', WBool b)], m')
          | _ \<Rightarrow> None }"

definition ref_load :: "(string \<times> wire) list \<Rightarrow> ref_db \<Rightarrow> (wire \<times> ref_db) option" where
  "ref_load kvs m =
     do { p \<leftarrow> text_arg kvs ''period'';
          case mem_LoadCheckpoint p m of
            (Inr None, m') \<Rightarrow> Some (WObj [(''checkpoint'', WNull)], m')
          | (Inr (Some cp), m') \<Rightarrow>
              if common_era (SealedAt cp) \<and> in_int64 (RowCount cp)
              then Some (WObj [(''checkpoint'', checkpoint_json cp)], m') else None
          | _ \<Rightarrow> None }"

definition ref_hold :: "(string \<times> wire) list \<Rightarrow> ref_db \<Rightarrow> (wire \<times> ref_db) option" where
  "ref_hold kvs m =
     do { (s, r, p, h) \<leftarrow> hold_arg kvs;
          case mem_SetLegalHold s r p h m of (Inr u, m') \<Rightarrow> Some (WNull, m') | _ \<Rightarrow> None }"

definition ref_purge :: "(string \<times> wire) list \<Rightarrow> ref_db \<Rightarrow> (wire \<times> ref_db) option" where
  "ref_purge kvs m =
     do { c \<leftarrow> text_arg kvs ''cutoff'';
          case mem_PurgeExpired c m of
            (Inr g, m') \<Rightarrow>
              if in_int64 (Purged g) \<and> in_int64 (RetainedUnderHold g)
              then Some (WObj [(''cutoff'', WStr c), (''purged'', wire_int (Purged g)),
                (''retainedUnderHold'', wire_int (RetainedUnderHold g))], m') else None
          | _ \<Rightarrow> None }"

definition ref_event :: "world \<Rightarrow> (string \<times> wire) list \<Rightarrow> ref_db \<Rightarrow> (wire \<times> ref_db) option" where
  "ref_event w kvs m =
     do { ev \<leftarrow> evidence_arg kvs;
          case mem_AppendVerifyEvent w ev m of (Inr i, m') \<Rightarrow> Some (WObj [(''eventId'', WStr i)], m') | _ \<Rightarrow> None }"

definition ref_sweep :: "world \<Rightarrow> (string \<times> wire) list \<Rightarrow> ref_db \<Rightarrow> (wire \<times> ref_db) option" where
  "ref_sweep w kvs m =
     do { days \<leftarrow> int_arg kvs ''retention_days'';
          case mem_SweepVerifyExpired w days m of
            (Inr v, m') \<Rightarrow>
              if in_int64 (SweepPurged v)
              then Some (WObj [(''cutoff'', WStr (SweepCutoff v)), (''purged'', wire_int (SweepPurged v))], m') else None
          | _ \<Rightarrow> None }"

text \<open>The dispatch on the statement.\<close>

definition ref_proc :: "world option \<Rightarrow> string \<Rightarrow> (string \<times> wire) list \<Rightarrow> ref_db \<Rightarrow> (wire \<times> ref_db) option" where
  "ref_proc w q kvs m =
     (if q = call_sql ''access_audit.append_record'' then Option.bind w (\<lambda>w. ref_append w kvs m)
      else if q = call_sql ''access_audit.records_by_subject'' then ref_records kvs m
      else if q = call_sql ''access_audit.seals_for_period'' then ref_seals kvs m
      else if q = call_sql ''access_audit.periods_pending_checkpoint'' then ref_pending kvs m
      else if q = call_sql ''access_audit.save_checkpoint'' then Option.bind w (\<lambda>w. ref_save w kvs m)
      else if q = call_sql ''access_audit.load_checkpoint'' then ref_load kvs m
      else if q = call_sql ''access_audit.set_legal_hold'' then ref_hold kvs m
      else if q = call_sql ''access_audit.purge_expired'' then ref_purge kvs m
      else if q = call_sql ''verify_audit.record_event'' then Option.bind w (\<lambda>w. ref_event w kvs m)
      else if q = call_sql ''verify_audit.sweep_retention'' then Option.bind w (\<lambda>w. ref_sweep w kvs m)
      else None)"

definition ref_error :: wire where
  "ref_error = WObj [(''result'', WStr ''error''), (''code'', WStr ''invalid''), (''message'', WStr ''not accepted'')]"

definition ref_QueryRow :: "world option \<Rightarrow> string \<Rightarrow> string \<Rightarrow> ref_db \<Rightarrow> (pg_error + string) \<times> ref_db" where
  "ref_QueryRow w q inp m =
     (case Unmarshal inp of
        Some (WObj kvs) \<Rightarrow>
          (case ref_proc w q kvs m of
             Some (d, m') \<Rightarrow>
               let out = WObj [(''result'', WStr ''success''), (''data'', d)]
               in if wire_ok out then (Inr (render_wire out), m') else (Inr (render_wire ref_error), m)
           | None \<Rightarrow> (Inr (render_wire ref_error), m))
      | _ \<Rightarrow> (Inr (render_wire ref_error), m))"

definition ref_pg :: "(ref_db, string, string) pgx" where
  "ref_pg = ref_codec\<lparr>QueryRow := ref_QueryRow\<rparr>"

definition ref_storable :: "(string, string) envelope \<Rightarrow> bool" where
  "ref_storable e \<longleftrightarrow> wire_ok (ref_json e) \<and> rereadable e"

section \<open>It satisfies the laws\<close>

lemma call_sql_inject [simp]: "call_sql p = call_sql q \<longleftrightarrow> p = q"
  by (simp add: call_sql_def)

lemma members_refl: "distinct (map fst kvs) \<Longrightarrow> members kvs kvs"
  by (simp add: members_def)

lemma object_refl: "distinct (map fst kvs) \<Longrightarrow> object (WObj kvs) kvs"
  by (auto simp: object_def members_def)

lemma ref_pg_simps [simp]:
  "QueryRow ref_pg = ref_QueryRow" "pool_Ping ref_pg m = (Inr (), m)" "envelope_json ref_pg e = Some (ref_json e)"
  "envelope_of_json ref_pg = ref_of_json" "row_arg ref_codec = row_arg ref_pg"
  by (simp_all add: ref_pg_def ref_codec_def fun_eq_iff row_arg_def)

lemma ref_error_refused: "pg_refused (Inr (render_wire ref_error))"
proof -
  have "Unmarshal (render_wire ref_error) = Some ref_error" by (intro Unmarshal_render) (simp add: ref_error_def valid_ascii)
  moreover have "members [(''result'', WStr ''error''), (''code'', WStr ''invalid''), (''message'', WStr ''not accepted'')]
      [(''result'', WStr ''error''), (''code'', WStr ''invalid''), (''message'', WStr ''not accepted'')]"
    by (simp add: members_def)
  ultimately show ?thesis unfolding pg_refused_def by (simp add: ref_error_def) blast
qed

lemma ref_answered:
  assumes "wire_ok (WObj [(''result'', WStr ''success''), (''data'', d)])"
  shows "pg_answered (Inr (render_wire (WObj [(''result'', WStr ''success''), (''data'', d)]))) d"
  unfolding pg_answered_def using Unmarshal_render [OF assms] members_refl [of "[(''result'', WStr ''success''), (''data'', d)]"]
  by (intro exI conjI) simp_all

lemma ref_effect:
  assumes "mem_inv m" and "Unmarshal inp = Some (WObj kvs)"
    and "\<And>d m'. ref_proc w q kvs m = Some (d, m') \<Longrightarrow> mem_inv m' \<and> P d (mem_abs m')"
  shows "effect mem_inv mem_abs m P (ref_QueryRow w q inp m)"
proof (cases "ref_proc w q kvs m")
  case None
  with assms(1,2) ref_error_refused show ?thesis by (simp add: effect_def ref_QueryRow_def)
next
  case (Some x)
  then obtain d m' where x: "ref_proc w q kvs m = Some (d, m')" by (cases x) simp
  with assms(1,2) assms(3) [OF x] ref_error_refused ref_answered [of d] show ?thesis
    by (auto simp: effect_def ref_QueryRow_def Let_def simp del: wire_ok.simps)
qed

lemma ref_append_law:
  assumes "mem_inv m" and "row_arg ref_pg kvs = Some r" and "ref_append w kvs m = Some (d, m')"
  shows "mem_inv m' \<and> (\<exists>i b. object d [(''recordId'', WStr i), (''eventId'', WStr (EventID (Envelope r))), (''duplicate'', WBool b)] \<and>
    mem_abs m' = spec_append r (mem_abs m) \<and> (b \<longleftrightarrow> EventID (Envelope r) \<in> dom (log (mem_abs m))))"
proof -
  obtain a where a: "mem_Append w r m = (Inr a, m')"
    "d = WObj [(''recordId'', WStr (RecordID a)), (''eventId'', WStr (ResEventID a)), (''duplicate'', WBool (Duplicate a))]"
    using assms(2,3) by (auto simp: ref_append_def split: prod.splits sum.splits)
  then have "object d [(''recordId'', WStr (RecordID a)), (''eventId'', WStr (ResEventID a)), (''duplicate'', WBool (Duplicate a))]"
    by (simp add: object_refl)
  moreover have "mem_inv m' \<and> mem_abs m' = spec_append r (mem_abs m) \<and> ResEventID a = EventID (Envelope r) \<and>
      (Duplicate a \<longleftrightarrow> EventID (Envelope r) \<in> dom (log (mem_abs m)))"
    using mem.append_law [OF assms(1), of w r "Inr a" m'] a(1) by simp
  ultimately show ?thesis by (intro conjI exI) simp_all
qed

lemma row_answer_row_json: "rereadable (Envelope r) \<Longrightarrow> in_int64 (Seq r) \<Longrightarrow> row_answer ref_pg (row_json r) r"
  unfolding row_answer_def row_json_def rereadable_def
  by (intro exI [of _ "ref_json (Envelope r)"]) (simp add: object_refl)

lemma ref_records_law:
  assumes "mem_inv m" and "subject_arg kvs = Some (subj, t0, t1, lim)" and "ref_records kvs m = Some (d, m')"
  shows "mem_inv m' \<and> mem_abs m' = mem_abs m \<and> (\<exists>vs rs. object d [(''records'', WArr vs)] \<and>
    list_all2 (row_answer ref_pg) vs rs \<and> subject_answer subj t0 t1 lim (mem_abs m) rs)"
proof -
  obtain rs where rs: "mem_BySubject subj t0 t1 (min lim read_cap) m = (Inr rs, m')" "d = WObj [(''records'', WArr (map row_json rs))]"
    "\<forall>r \<in> set rs. rereadable (Envelope r) \<and> in_int64 (Seq r)"
    using assms(2,3) by (auto simp: ref_records_def list_all_iff split: prod.splits sum.splits if_splits)
  have "list_all2 (row_answer ref_pg) (map row_json rs) rs"
    using rs(3) by (simp add: list_all2_conv_all_nth row_answer_row_json)
  moreover have "object d [(''records'', WArr (map row_json rs))]" by (simp add: rs(2) object_refl)
  moreover have "mem_inv m' \<and> mem_abs m' = mem_abs m \<and> subject_answer subj t0 t1 lim (mem_abs m) rs"
    using rs(1) mem.by_subject_law [OF assms(1), of subj t0 t1 "min lim read_cap" "Inr rs" m'] subject_answer_cap by auto
  ultimately show ?thesis by blast
qed

lemma ref_seals_law:
  assumes "mem_inv m" and "text_arg kvs ''period'' = Some p" and "ref_seals kvs m = Some (d, m')"
  shows "mem_inv m' \<and> mem_abs m' = mem_abs m \<and> (\<exists>ss. object d [(''seals'', WArr (map WStr ss)), (''count'', wire_int (int (length ss)))] \<and>
    in_int64 (int (length ss)) \<and> ss = spec_seals p (mem_abs m))"
proof -
  obtain ss n where s: "mem_SealsForPeriod p m = (Inr (ss, n), m')" "in_int64 n"
    "d = WObj [(''seals'', WArr (map WStr ss)), (''count'', wire_int n)]"
    using assms(2,3) by (auto simp: ref_seals_def split: prod.splits sum.splits if_splits)
  then have "object d [(''seals'', WArr (map WStr ss)), (''count'', wire_int n)]" by (simp add: object_refl)
  with s(1,2) mem.seals_law [OF assms(1), of p "Inr (ss, n)" m'] show ?thesis by auto
qed

lemma ref_pending_law:
  assumes "mem_inv m" and "text_arg kvs ''before'' = Some p" and "ref_pending kvs m = Some (d, m')"
  shows "mem_inv m' \<and> mem_abs m' = mem_abs m \<and> (\<exists>ps. object d [(''periods'', WArr (map WStr ps))] \<and>
    set ps = spec_pending p (mem_abs m) \<and> distinct ps)"
proof -
  obtain ps where s: "mem_PendingCheckpointPeriods p m = (Inr ps, m')" "d = WObj [(''periods'', WArr (map WStr ps))]"
    using assms(2,3) by (auto simp: ref_pending_def split: prod.splits sum.splits)
  then have "object d [(''periods'', WArr (map WStr ps))]" by (simp add: object_refl)
  with s(1) mem.pending_law [OF assms(1), of p "Inr ps" m'] show ?thesis by auto
qed

lemma ref_save_law:
  assumes "mem_inv m" and "checkpoint_arg kvs = Some cp" and "ref_save w kvs m = Some (d, m')"
  shows "mem_inv m' \<and> (\<exists>b. object d [(''created'', WBool b)] \<and> (\<exists>t. mem_abs m' = spec_save (cp\<lparr>SealedAt := t\<rparr>) (mem_abs m)) \<and>
    (b \<longleftrightarrow> CpPeriod cp \<notin> dom (cps (mem_abs m))))"
proof -
  obtain b where s: "mem_SaveCheckpoint w cp m = (Inr b, m')" "d = WObj [(''created'', WBool b)]"
    using assms(2,3) by (auto simp: ref_save_def split: prod.splits sum.splits)
  then have "object d [(''created'', WBool b)]" by (simp add: object_refl)
  with s(1) mem.save_law [OF assms(1), of w cp "Inr b" m'] show ?thesis by auto
qed

lemma checkpoint_answer_json:
  "common_era (SealedAt cp) \<Longrightarrow> in_int64 (RowCount cp) \<Longrightarrow> checkpoint_answer (checkpoint_json cp) (Some cp)"
  unfolding checkpoint_answer_def checkpoint_json_def common_era_def
  by (simp, intro exI [of _ "format_rfc3339nano (SealedAt cp)"]) (simp add: parse_rfc3339_format object_refl)

lemma ref_load_law:
  assumes "mem_inv m" and "text_arg kvs ''period'' = Some p" and "ref_load kvs m = Some (d, m')"
  shows "mem_inv m' \<and> mem_abs m' = mem_abs m \<and>
    (\<exists>v. object d [(''checkpoint'', v)] \<and> checkpoint_answer v (cps (mem_abs m) p))"
proof -
  obtain c v where s: "mem_LoadCheckpoint p m = (Inr c, m')" "d = WObj [(''checkpoint'', v)]"
    "c = None \<and> v = WNull \<or> (\<exists>cp. c = Some cp \<and> v = checkpoint_json cp \<and> common_era (SealedAt cp) \<and> in_int64 (RowCount cp))"
    using assms(2,3) by (auto simp: ref_load_def split: prod.splits sum.splits option.splits if_splits)
  have "checkpoint_answer v c"
    using s(3) checkpoint_answer_json by (auto simp: checkpoint_answer_def [of WNull])
  moreover have "object d [(''checkpoint'', v)]" by (simp add: s(2) object_refl)
  ultimately show ?thesis using s(1) mem.load_law [OF assms(1), of p "Inr c" m'] by auto
qed

lemma ref_hold_law:
  assumes "mem_inv m" and "hold_arg kvs = Some (subj, reason, by_whom, h)" and "ref_hold kvs m = Some (d, m')"
  shows "mem_inv m' \<and> mem_abs m' = spec_hold subj h (mem_abs m)"
proof -
  obtain u where "mem_SetLegalHold subj reason by_whom h m = (Inr u, m')"
    using assms(2,3) by (auto simp: ref_hold_def split: prod.splits sum.splits)
  with mem.hold_law [OF assms(1), of subj reason by_whom h "Inr u" m'] show ?thesis by auto
qed

lemma ref_purge_law:
  assumes "mem_inv m" and "text_arg kvs ''cutoff'' = Some c" and "ref_purge kvs m = Some (d, m')"
  shows "mem_inv m' \<and> mem_abs m' = spec_purge c (mem_abs m) \<and> (\<exists>g. purge_answer c (mem_abs m) g \<and>
    in_int64 (Purged g) \<and> in_int64 (RetainedUnderHold g) \<and>
    object d [(''cutoff'', WStr c), (''purged'', wire_int (Purged g)), (''retainedUnderHold'', wire_int (RetainedUnderHold g))])"
proof -
  obtain g where s: "mem_PurgeExpired c m = (Inr g, m')" "in_int64 (Purged g)" "in_int64 (RetainedUnderHold g)"
    "d = WObj [(''cutoff'', WStr c), (''purged'', wire_int (Purged g)), (''retainedUnderHold'', wire_int (RetainedUnderHold g))]"
    using assms(2,3) by (auto simp: ref_purge_def split: prod.splits sum.splits if_splits)
  then have "object d [(''cutoff'', WStr c), (''purged'', wire_int (Purged g)), (''retainedUnderHold'', wire_int (RetainedUnderHold g))]"
    by (simp add: object_refl)
  with s(1-3) mem.purge_law [OF assms(1), of c "Inr g" m'] show ?thesis by auto
qed

lemma ref_event_law:
  assumes "mem_inv m" and "evidence_arg kvs = Some ev" and "ref_event w kvs m = Some (d, m')"
  shows "mem_inv m' \<and> mem_abs m' = spec_record_evidence ev (mem_abs m) \<and> (\<exists>i. object d [(''eventId'', WStr i)])"
proof -
  obtain i where s: "mem_AppendVerifyEvent w ev m = (Inr i, m')" "d = WObj [(''eventId'', WStr i)]"
    using assms(2,3) by (auto simp: ref_event_def split: prod.splits sum.splits)
  then have "object d [(''eventId'', WStr i)]" by (simp add: object_refl)
  with s(1) mem.evidence_law [OF assms(1), of w ev "Inr i" m'] show ?thesis by auto
qed

lemma ref_sweep_law:
  assumes "mem_inv m" and "int_arg kvs ''retention_days'' = Some days" and "ref_sweep w kvs m = Some (d, m')"
  shows "mem_inv m' \<and> mem_abs m' = spec_sweep (now w - days * day_ns) (mem_abs m) \<and> (\<exists>c n. in_int64 n \<and>
    object d [(''cutoff'', WStr c), (''purged'', wire_int n)] \<and>
    n = int (length (evidence (mem_abs m))) - int (length (evidence (mem_abs m'))))"
proof -
  obtain v where s: "mem_SweepVerifyExpired w days m = (Inr v, m')" "in_int64 (SweepPurged v)"
    "d = WObj [(''cutoff'', WStr (SweepCutoff v)), (''purged'', wire_int (SweepPurged v))]"
    using assms(2,3) by (auto simp: ref_sweep_def split: prod.splits sum.splits if_splits)
  then have "object d [(''cutoff'', WStr (SweepCutoff v)), (''purged'', wire_int (SweepPurged v))]"
    by (simp add: object_refl)
  moreover have "mem_inv m' \<and> mem_abs m' = spec_sweep (now w - days * day_ns) (mem_abs m) \<and>
      SweepPurged v = int (length (evidence (mem_abs m))) - int (length (evidence (mem_abs m')))"
    using mem.sweep_law [OF assms(1), of w days "Inr v" m'] s(1) by (simp only: memory_store_ops sum.case)
  ultimately show ?thesis using s(2) by blast
qed

lemmas ref_laws = ref_append_law ref_records_law ref_seals_law ref_pending_law ref_save_law ref_load_law ref_hold_law
  ref_purge_law ref_event_law ref_sweep_law

interpretation ref: procedures ref_pg mem_inv mem_abs ref_storable
  apply unfold_locales
  subgoal by (rule mem.abs_ok)
  subgoal by (simp add: ref_storable_def rereadable_def)
  unfolding ref_pg_simps
  by ((rule ref_effect, assumption, assumption, rule ref_laws, assumption, assumption, simp add: ref_proc_def; fail)+, simp)

section \<open>The PostgreSQL store on the reference database\<close>

lemma ref_QueryRow_answer:
  assumes "Unmarshal inp = Some (WObj kvs)" and "ref_proc w q kvs m = Some (d, m')" and "wire_ok d"
  shows "\<exists>res. ref_QueryRow w q inp m = (res, m') \<and> pg_answered res d"
  using assms ref_answered [of d] by (simp add: ref_QueryRow_def Let_def valid_ascii)

text \<open>An append of a new event stores what the in-memory store would store.\<close>

lemma append_on_reference:
  assumes "ref_storable (Envelope r)" and "list_all valid_utf8 [RowSeal r, SourceService r, System r]"
    and "valid_utf8 (ulid w)" and "byEventID m (EventID (Envelope r)) = None"
  shows "pg_Append ref_pg w r m = mem_Append w r m"
proof -
  from assms(1) have "envelope_json ref_pg (Envelope r) = Some (ref_json (Envelope r))" "wire_ok (ref_json (Envelope r))"
    "envelope_of_json ref_pg (ref_json (Envelope r)) = Some (Envelope r)"
    by (simp_all add: ref_storable_def rereadable_def)
  from append_input_arg [OF this assms(2)] obtain kvs where kvs: "appendInput ref_pg r = Some (WObj kvs)"
    "Unmarshal (render_wire (WObj kvs)) = Some (WObj kvs)" "row_arg ref_pg kvs = Some (r\<lparr>RowID := [], Seq := 0\<rparr>)" by metis
  obtain a m' where a: "mem_Append w r m = (Inr a, m')" "a = \<lparr>RecordID = ulid w, ResEventID = EventID (Envelope r), Duplicate = False\<rparr>"
    using assms(4) by (simp add: mem_Append_def Let_def)
  define d where "d = WObj [(''recordId'', WStr (RecordID a)), (''eventId'', WStr (ResEventID a)), (''duplicate'', WBool (Duplicate a))]"
  have "ref_proc (Some w) (call_sql ''access_audit.append_record'') kvs m = Some (d, m')"
    using assms(4) a by (simp add: ref_proc_def ref_append_def kvs(3) mem_Append_def Let_def d_def)
  moreover have "wire_ok d"
    using assms(1,3) by (simp add: d_def a(2) ref_storable_def ref_json_def valid_ascii)
  ultimately obtain res where q: "QueryRow ref_pg (Some w) (call_sql ''access_audit.append_record'') (render_wire (WObj kvs)) m = (res, m')"
    "pg_answered res d"
    unfolding ref_pg_simps using ref_QueryRow_answer [OF kvs(2)] by blast
  have "object d [(''recordId'', WStr (RecordID a)), (''eventId'', WStr (ResEventID a)), (''duplicate'', WBool (Duplicate a))]"
    by (simp add: d_def object_refl)
  then have "decoded ''append'' (unmarshal_raw (decode_struct append_fields) x (Some d)) = Inr a" for x
    by (simp add: decode_append decoded_def)
  then show ?thesis unfolding pg_Append_def kvs(1) with_data_call(1) [OF q] a(1) by simp
qed

lemma ref_storable_sample: "ref_storable sample_envelope"
proof -
  have "parse_rfc3339 (format_rfc3339nano (Date 2024 5 17)) = Some (Date 2024 5 17)" by (intro parse_rfc3339_format) simp_all
  then show ?thesis
    unfolding ref_storable_def rereadable_def sample_envelope_def ref_json_def ref_of_json_def
    by (simp add: ref_fields_def arg_defs valid_ascii opt_json_def opt_of_def strings_of_def decode_string_def)
qed

theorem postgres_refines_log_witness:
  "store_contract (checked ref_storable (postgres_store ref_pg)) mem_inv mem_abs \<and>
   pg_Append ref_pg sample_world (sample_row ''ev-1'' (Date 2024 5 17)) NewMemory =
     mem_Append sample_world (sample_row ''ev-1'' (Date 2024 5 17)) NewMemory"
proof
  show "store_contract (checked ref_storable (postgres_store ref_pg)) mem_inv mem_abs"
    by (rule postgres_refines_log [OF ref.procedures_axioms])
  have "Envelope (sample_row ''ev-1'' (Date 2024 5 17)) = sample_envelope"
    by (simp add: sample_row_def sample_envelope_def)
  then show "pg_Append ref_pg sample_world (sample_row ''ev-1'' (Date 2024 5 17)) NewMemory =
      mem_Append sample_world (sample_row ''ev-1'' (Date 2024 5 17)) NewMemory"
    using ref_storable_sample
    by (intro append_on_reference) (simp_all add: NewMemory_def sample_row_def sample_world_def valid_ascii)
qed

end
