(* ===== verification/App.thy ===== *)
theory App
  imports Config Task Reference_DB
begin

text \<open>
  \<^verbatim>\<open>app.go\<close>: the application container and how it is wired (\<^verbatim>\<open>New\<close>,
  \<^verbatim>\<open>init\<close>, \<^verbatim>\<open>Start\<close>), with the stub authentication of \<^verbatim>\<open>testing.go\<close>. The
  container's \<^verbatim>\<open>store.Store\<close> interface value is either backend; \<open>store_iface\<close> is the
  dynamic dispatch, and it meets \<open>store_contract\<close> whenever the PostgreSQL backend does.
  Constructors of other packages are the fields of \<open>services\<close>.
\<close>

section \<open>The store interface value\<close>

datatype ('p, 'a, 'r) backend = InMemory "('a, 'r) Memory" | OnPostgres 'p

definition dispatch_store ::
    "(('a, 'r) Memory \<Rightarrow> 'x \<times> ('a, 'r) Memory) \<Rightarrow> ('p \<Rightarrow> 'x \<times> 'p) \<Rightarrow>
     ('p, 'a, 'r) backend \<Rightarrow> 'x \<times> ('p, 'a, 'r) backend" where
  "dispatch_store f g b =
     (case b of
        InMemory m \<Rightarrow> (case f m of (x, m') \<Rightarrow> (x, InMemory m'))
      | OnPostgres p \<Rightarrow> (case g p of (x, p') \<Rightarrow> (x, OnPostgres p')))"

definition store_iface :: "('p, 'a, 'r) Store \<Rightarrow> (('p, 'a, 'r) backend, 'a, 'r) Store" where
  "store_iface P =
     \<lparr>Append = \<lambda>w r. dispatch_store (mem_Append w r) (Append P w r),
      BySubject = \<lambda>subject t0 t1 limit.
        dispatch_store (mem_BySubject subject t0 t1 limit) (BySubject P subject t0 t1 limit),
      SealsForPeriod = \<lambda>p. dispatch_store (mem_SealsForPeriod p) (SealsForPeriod P p),
      PendingCheckpointPeriods = \<lambda>b.
        dispatch_store (mem_PendingCheckpointPeriods b) (PendingCheckpointPeriods P b),
      SaveCheckpoint = \<lambda>w cp. dispatch_store (mem_SaveCheckpoint w cp) (SaveCheckpoint P w cp),
      LoadCheckpoint = \<lambda>p. dispatch_store (mem_LoadCheckpoint p) (LoadCheckpoint P p),
      SetLegalHold = \<lambda>subject reason placedBy hold.
        dispatch_store (mem_SetLegalHold subject reason placedBy hold) (SetLegalHold P subject reason placedBy hold),
      PurgeExpired = \<lambda>cutoff. dispatch_store (mem_PurgeExpired cutoff) (PurgeExpired P cutoff),
      AppendVerifyEvent = \<lambda>w ev. dispatch_store (mem_AppendVerifyEvent w ev) (AppendVerifyEvent P w ev),
      SweepVerifyExpired = \<lambda>w days. dispatch_store (mem_SweepVerifyExpired w days) (SweepVerifyExpired P w days),
      Ping = dispatch_store mem_Ping (Ping P)\<rparr>"

section \<open>The container\<close>

record ('s, 'a, 'r) App =
  config :: "Configuration option"
  config_Ready :: bool
  app_sealer :: sealer
  app_store :: "('s, 'a, 'r) Store"
  app_events :: "emitter option"
  authMW :: "('a, 'r) ctx \<Rightarrow> ('a, 'r) http + ('a, 'r) ctx"
  app_framework :: "('a, 'r) framework"
  app_task :: "('s, 'a, 'r) RetentionConfig"

text \<open>\<^verbatim>\<open>Config()\<close>; \<open>None\<close> is its panic.\<close>

definition Config :: "('s, 'a, 'r) App \<Rightarrow> Configuration option" where
  "Config a =
     (case config a of
        None \<Rightarrow> None
      | Some c \<Rightarrow> if config_Ready a then Some c else None)"

definition SetAuthMiddleware ::
    "(('a, 'r) ctx \<Rightarrow> ('a, 'r) http + ('a, 'r) ctx) \<Rightarrow> ('s, 'a, 'r) App \<Rightarrow> ('s, 'a, 'r) App" where
  "SetAuthMiddleware mw a = a\<lparr>authMW := mw\<rparr>"

text \<open>The constructors of other packages that \<^verbatim>\<open>New\<close> and \<^verbatim>\<open>init\<close> call:
  \<open>server_New\<close> loads and validates the configuration, \<open>authclient_New\<close> also stands for the
  client's \<^verbatim>\<open>Authenticate\<close>.\<close>

record ('p, 'a, 'r) services =
  server_New :: "error + Configuration"
  platform_Setup :: "error option"
  sec_sink :: "origin \<Rightarrow> sec_event \<Rightarrow> error option"
  pgxpool_New :: "string \<Rightarrow> string + 'p"
  sv_pgx :: "('p, 'a, 'r) pgx"
  authclient_New :: "error + (('a, 'r) ctx \<Rightarrow> ('a, 'r) http + ('a, 'r) ctx)"
  AddTask :: "(('p, 'a, 'r) backend, 'a, 'r) RetentionConfig \<Rightarrow> error option"
  sv_framework :: "('a, 'r) framework"

text \<open>The store interface value of a \<^verbatim>\<open>*store.Postgres\<close> on the driver.\<close>

abbreviation postgres_ops :: "('p, 'a, 'r) services \<Rightarrow> ('p, 'a, 'r) Store" where
  "postgres_ops sv \<equiv> postgres_store (sv_pgx sv)"

text \<open>The running application: the container and the mutable state behind it.\<close>

record ('p, 'a, 'r) booted =
  bt_app :: "(('p, 'a, 'r) backend, 'a, 'r) App"
  bt_sys :: "('p, 'a, 'r) backend sys"

definition no_DSN_warning :: string where
  "no_DSN_warning = ''no store DSN configured (ACCESS_AUDIT_STORE_DSN) '' @ em_dash @
     '' using in-memory store; access records will NOT survive restarts (development only)''"

definition open_store ::
    "('p, 'a, 'r) services \<Rightarrow> Configuration \<Rightarrow> error + ('p, 'a, 'r) backend \<times> log_entry list" where
  "open_store sv cfg =
     (if StoreBackend cfg = StoreBackendPostgres then
        (case NewPostgres (pgxpool_New sv) (StoreDSN cfg) of
           Inl err \<Rightarrow> Inl err
         | Inr p \<Rightarrow> Inr (OnPostgres p, []))
      else Inr (InMemory NewMemory, [LogWarn no_DSN_warning]))"

text \<open>The container \<^verbatim>\<open>init\<close> has filled once nothing failed, with the task's configuration.
  \<open>config_Ready\<close> is the base configuration's flag, which \<open>server_New\<close> has set when it returned
  a loaded configuration.\<close>

definition task_config ::
    "('p, 'a, 'r) services \<Rightarrow> Configuration \<Rightarrow> sealer \<Rightarrow> (('p, 'a, 'r) backend, 'a, 'r) RetentionConfig" where
  "task_config sv cfg sealer =
     \<lparr>rc_Store = store_iface (postgres_ops sv), rc_Sealer = sealer, rc_Events = NewEmitter (sec_sink sv),
      rc_Interval = RetentionInterval cfg, rc_Window = RetentionWindow cfg,
      rc_VerifyRetentionDays = VerifyRetentionDays cfg, rc_Logger = True\<rparr>"

definition container ::
    "('p, 'a, 'r) services \<Rightarrow> Configuration \<Rightarrow> sealer \<Rightarrow>
     (('a, 'r) ctx \<Rightarrow> ('a, 'r) http + ('a, 'r) ctx) \<Rightarrow> (('p, 'a, 'r) backend, 'a, 'r) App" where
  "container sv cfg sealer mw =
     \<lparr>config = Some cfg, config_Ready = True, app_sealer = sealer, app_store = store_iface (postgres_ops sv),
      app_events = NewEmitter (sec_sink sv), authMW = mw, app_framework = sv_framework sv,
      app_task = task_config sv cfg sealer\<rparr>"

definition app_init :: "('p, 'a, 'r) services \<Rightarrow> Configuration \<Rightarrow> error + ('p, 'a, 'r) booted" where
  "app_init sv cfg =
     (case platform_Setup sv of
        Some err \<Rightarrow> Inl err
      | None \<Rightarrow>
     (case New (SealKeyBytes cfg) of
        Inl err \<Rightarrow> Inl err
      | Inr sealer \<Rightarrow>
     (case open_store sv cfg of
        Inl err \<Rightarrow> Inl err
      | Inr (b, ls) \<Rightarrow>
     (case authclient_New sv of
        Inl err \<Rightarrow> Inl err
      | Inr mw \<Rightarrow>
     (case AddTask sv (task_config sv cfg sealer) of
        Some err \<Rightarrow> Inl err
      | None \<Rightarrow>
          Inr \<lparr>bt_app = container sv cfg sealer mw,
               bt_sys = \<lparr>st = b, tel = \<lparr>emitted = [], emit_failures = []\<rparr>, logs = ls\<rparr>\<rparr>)))))"

definition app_New :: "('p, 'a, 'r) services \<Rightarrow> error + ('p, 'a, 'r) booted" where
  "app_New sv =
     (case server_New sv of
        Inl err \<Rightarrow> Inl err
      | Inr cfg \<Rightarrow> app_init sv cfg)"

text \<open>\<^verbatim>\<open>Start\<close>: an unreachable store is logged, not fatal; \<open>serve\<close> is the framework's
  start.\<close>

definition unreachable_warning :: string where
  "unreachable_warning = ''access-audit store not reachable at start '' @ em_dash @
     '' readiness will report not-ready until it recovers''"

definition app_Start ::
    "error option \<Rightarrow> ('s, 'a, 'r) App \<Rightarrow> 's sys \<Rightarrow> error option \<times> 's sys" where
  "app_Start serve a y =
     (case on_store (Ping (app_store a)) y of
        (Inl err, y) \<Rightarrow> (serve, y\<lparr>logs := logs y @ [LogWarn unreachable_warning]\<rparr>)
      | (Inr _, y) \<Rightarrow> (serve, y))"

section \<open>The stub authentication of the tests\<close>

definition TestAuthMiddleware ::
    "(string \<Rightarrow> string \<Rightarrow> user) \<Rightarrow> ('a, 'r) ctx \<Rightarrow> ('a, 'r) http + ('a, 'r) ctx" where
  "TestAuthMiddleware user_New ctx =
     (let scopes = Header ctx ''X-Test-Scopes''
      in if scopes = [] then Inl (Reply StatusUnauthorized (TextBody ''unauthorized''))
         else let sub = Header ctx ''X-Test-Sub'';
                  sub = (if sub = [] then ''svc:test-client'' else sub)
              in Inr (ctx\<lparr>User := user_New sub scopes\<rparr>))"

section \<open>Dispatch keeps the contract\<close>

primrec backend_inv :: "(('a, 'r) Memory \<Rightarrow> bool) \<Rightarrow> ('p \<Rightarrow> bool) \<Rightarrow> ('p, 'a, 'r) backend \<Rightarrow> bool" where
  "backend_inv J I (InMemory m) = J m"
| "backend_inv J I (OnPostgres p) = I p"

primrec backend_abs :: "('p \<Rightarrow> ('a, 'r) spec) \<Rightarrow> ('p, 'a, 'r) backend \<Rightarrow> ('a, 'r) spec" where
  "backend_abs A (InMemory m) = mem_abs m"
| "backend_abs A (OnPostgres p) = A p"

lemma dispatch_store_cases:
  assumes "dispatch_store f g b = (x, b')"
  obtains m m' where "b = InMemory m" "b' = InMemory m'" "f m = (x, m')"
  | p p' where "b = OnPostgres p" "b' = OnPostgres p'" "g p = (x, p')"
  using assms by (cases b) (auto simp: dispatch_store_def split: prod.splits)

lemma dispatch_law:
  assumes "dispatch_store f g b = (x, b')" and "backend_inv J I b"
    and "\<And>m m'. J m \<Longrightarrow> f m = (x, m') \<Longrightarrow> b = InMemory m \<Longrightarrow> b' = InMemory m' \<Longrightarrow> R"
    and "\<And>p p'. I p \<Longrightarrow> g p = (x, p') \<Longrightarrow> b = OnPostgres p \<Longrightarrow> b' = OnPostgres p' \<Longrightarrow> R"
  shows R
  using assms(1)
proof (cases rule: dispatch_store_cases)
  case (1 m m')
  then show ?thesis using assms(2,3) by simp
next
  case (2 p p')
  then show ?thesis using assms(2,4) by simp
qed

lemma store_iface_ops [simp]:
  "Append (store_iface P) w r = dispatch_store (mem_Append w r) (Append P w r)"
  "BySubject (store_iface P) subject t0 t1 limit =
     dispatch_store (mem_BySubject subject t0 t1 limit) (BySubject P subject t0 t1 limit)"
  "SealsForPeriod (store_iface P) p = dispatch_store (mem_SealsForPeriod p) (SealsForPeriod P p)"
  "PendingCheckpointPeriods (store_iface P) q =
     dispatch_store (mem_PendingCheckpointPeriods q) (PendingCheckpointPeriods P q)"
  "SaveCheckpoint (store_iface P) w cp = dispatch_store (mem_SaveCheckpoint w cp) (SaveCheckpoint P w cp)"
  "LoadCheckpoint (store_iface P) p = dispatch_store (mem_LoadCheckpoint p) (LoadCheckpoint P p)"
  "SetLegalHold (store_iface P) subject reason placedBy hold =
     dispatch_store (mem_SetLegalHold subject reason placedBy hold) (SetLegalHold P subject reason placedBy hold)"
  "PurgeExpired (store_iface P) cutoff = dispatch_store (mem_PurgeExpired cutoff) (PurgeExpired P cutoff)"
  "AppendVerifyEvent (store_iface P) w ev = dispatch_store (mem_AppendVerifyEvent w ev) (AppendVerifyEvent P w ev)"
  "SweepVerifyExpired (store_iface P) w days =
     dispatch_store (mem_SweepVerifyExpired w days) (SweepVerifyExpired P w days)"
  "Ping (store_iface P) = dispatch_store mem_Ping (Ping P)"
  by (simp_all add: store_iface_def)

text \<open>An invariant no state satisfies: the backend is never the one in use.\<close>

lemma unused_contract: "store_contract P (\<lambda>p. False) A"
  by unfold_locales simp_all

lemma store_iface_contract:
  fixes P :: "('p, 'a, 'r) Store" and I J A
  assumes M: "store_contract memory_store J mem_abs" and P: "store_contract P I A"
  shows "store_contract (store_iface P) (backend_inv J I) (backend_abs A)"
proof -
  note laws = store_contract_laws [OF M, unfolded memory_store_ops] store_contract_laws [OF P]
  show ?thesis
    apply unfold_locales
    subgoal for s using store_contract.abs_ok [OF M] store_contract.abs_ok [OF P] by (cases s) auto
    apply (unfold store_iface_ops)
    by (erule dispatch_law, assumption, (drule (1) laws, force split: sum.splits)+)+
qed

section \<open>Booting\<close>

lemma app_init_cases:
  assumes "app_init sv cfg = Inr b"
  obtains sealer mw s ls where "New (SealKeyBytes cfg) = Inr sealer" "authclient_New sv = Inr mw"
    "open_store sv cfg = Inr (s, ls)" "bt_app b = container sv cfg sealer mw"
    "bt_sys b = \<lparr>st = s, tel = \<lparr>emitted = [], emit_failures = []\<rparr>, logs = ls\<rparr>"
  using assms by (auto simp: app_init_def split: option.splits sum.splits prod.splits)

lemma open_store_memory: "StoreDSN cfg = [] \<Longrightarrow> open_store sv cfg = Inr (s, ls) \<Longrightarrow> s = InMemory NewMemory"
  by (auto simp: open_store_def StoreBackend_def StoreBackendMemory_def StoreBackendPostgres_def)

lemma open_store_postgres:
  "StoreBackend cfg = StoreBackendPostgres \<Longrightarrow> open_store sv cfg = Inr (s, ls) \<Longrightarrow> \<exists>p. s = OnPostgres p \<and> NewPostgres (pgxpool_New sv) (StoreDSN cfg) = Inr p"
  by (auto simp: open_store_def split: sum.splits)

lemma Config_container [simp]: "Config (container sv cfg sealer mw) = Some cfg"
  by (simp add: Config_def container_def)

lemma length_runes_le: "length (runes s) \<le> length s"
proof -
  have "list_all (\<lambda>t. 1 \<le> length (bytes_of t)) ts \<Longrightarrow> length ts \<le> length (concat (map bytes_of ts))" for ts
    by (induction ts) auto
  moreover have "list_all (\<lambda>t. 1 \<le> length (bytes_of t)) (tokens s)"
    using tokens_not_Nil [of _ s] by (auto simp: list_all_iff Suc_le_eq)
  ultimately show ?thesis using concat_tokens [of s] by (metis length_map runes_def)
qed

section \<open>Properties\<close>

definition sample_config :: "string \<Rightarrow> Configuration" where
  "sample_config dsn =
     \<lparr>StoreDSN = dsn, SealKey = key sample_sealer, cfg_System = ''default'', RetentionInterval = 24 * hour_ns,
      RetentionWindow = 365 * 24 * hour_ns, VerifyRetentionDays = 90\<rparr>"

definition sample_framework :: "(string, string) framework" where
  "sample_framework =
     \<lparr>fw_codec = sample_codec, CategoryGDPRAccess = ''gdpr_access'', lower_table = (\<lambda>c. c),
      ValidateStruct = (\<lambda>h. if Subject h = [] then Some (ExternalError ''subject'') else None)\<rparr>"

definition sample_user :: "string \<Rightarrow> string \<Rightarrow> user" where
  "sample_user sub scopes = \<lparr>user_ID = sub, HasScopeLevel = (\<lambda>g l. scopes = g @ '':'' @ l)\<rparr>"

definition sample_ctx :: "string \<Rightarrow> (string, string) envelope \<Rightarrow> (string, string) ctx" where
  "sample_ctx scopes e =
     \<lparr>User = sample_user [] [], Path = ''/v1'', Header = (\<lambda>h. if h = ''X-Test-Scopes'' then scopes else []),
      Params = (\<lambda>p. ''usr_1''), QueryString = (\<lambda>q. None), QueryInt = (\<lambda>q. Inr None), BodyAccessRecord = Inr e,
      BodyVerifyEvent = Inl (ExternalError ''body''), BodyLegalHold = Inr \<lparr>Subject = ''usr_1'', Reason = []\<rparr>\<rparr>"

definition sample_services :: "string \<Rightarrow> ((string, string) Memory, string, string) services" where
  "sample_services dsn =
     \<lparr>server_New = Inr (sample_config dsn), platform_Setup = None, sec_sink = (\<lambda>org ev. None),
      pgxpool_New = (\<lambda>d. Inr NewMemory), sv_pgx = ref_pg,
      authclient_New = Inr (TestAuthMiddleware sample_user), AddTask = (\<lambda>rc. None),
      sv_framework = sample_framework\<rparr>"

definition sample_validators :: "string \<Rightarrow> validators" where
  "sample_validators file =
     \<lparr>Getenv = (\<lambda>n. if n = ''ACCESS_AUDIT_STORE_DSN_FILE'' then file else []), base_Validate = None,
      Struct = (\<lambda>c. if tags_hold c then None else Some (ExternalError ''validation'')), auth_Validate = None\<rparr>"

definition sample_booted :: "((string, string) Memory, string, string) booted" where
  "sample_booted =
     \<lparr>bt_app = container (sample_services []) (sample_config []) sample_sealer (TestAuthMiddleware sample_user),
      bt_sys = \<lparr>st = InMemory NewMemory, tel = \<lparr>emitted = [], emit_failures = []\<rparr>,
        logs = [LogWarn no_DSN_warning]\<rparr>\<rparr>"

lemma sample_tags: "tags_hold (sample_config dsn)"
  by (simp add: tags_hold_def sample_config_def sample_sealer_def hour_ns_def runes_ascii)

lemma sample_validates: "TrimSpace dsn \<noteq> [] \<or> file = [] \<Longrightarrow> cfg_Validate (sample_validators file) (sample_config dsn) = None"
  unfolding cfg_Validate_None by (auto simp: sample_validators_def sample_tags) (simp add: sample_config_def)

lemma tag_validator_sample: "tag_validator (sample_validators file)"
  by (simp add: tag_validator_def sample_validators_def)

lemma New_sample: "New (SealKeyBytes (sample_config dsn)) = Inr sample_sealer"
  by (simp add: New_def SealKeyBytes_def sample_config_def sample_sealer_def)

lemma sample_services_simps:
  "server_New (sample_services dsn) = Inr (sample_config dsn)" "platform_Setup (sample_services dsn) = None"
  "authclient_New (sample_services dsn) = Inr (TestAuthMiddleware sample_user)" "AddTask (sample_services dsn) rc = None"
  "pgxpool_New (sample_services dsn) d = Inr NewMemory" "sv_pgx (sample_services dsn) = ref_pg"
  "sv_framework (sample_services dsn) = sample_framework"
  by (simp_all add: sample_services_def)

lemma sample_open_pg: "open_store (sample_services ''pg'') (sample_config ''pg'') = Inr (OnPostgres NewMemory, [])"
  by (simp add: open_store_def sample_services_simps NewPostgres_def) (simp add: sample_config_def StoreBackend_def)

lemma sample_boot: "app_New (sample_services []) = Inr sample_booted"
  unfolding app_New_def app_init_def sample_booted_def
  by (simp add: sample_services_def New_sample open_store_def)
    (simp add: sample_config_def StoreBackend_def StoreBackendMemory_def StoreBackendPostgres_def)

text \<open>Booting fails closed. When the connection string is named as a secret file and the
  configuration passed validation, a service that comes up runs on PostgreSQL: an unwritten secret
  never selects the in-memory store.\<close>

theorem boot_fails_closed:
  assumes "server_New sv = Inr cfg" and "cfg_Validate v cfg = None"
    and "Getenv v ''ACCESS_AUDIT_STORE_DSN_FILE'' \<noteq> []" and "app_New sv = Inr b"
  shows "\<exists>p. st (bt_sys b) = OnPostgres p \<and> NewPostgres (pgxpool_New sv) (StoreDSN cfg) = Inr p"
proof -
  have "app_init sv cfg = Inr b" using assms(1,4) by (simp add: app_New_def)
  then show ?thesis
    using open_store_postgres [OF valid_backend [OF assms(2,3)]] by (elim app_init_cases) auto
qed

theorem boot_fails_closed_witness:
  "\<exists>b p. app_New (sample_services ''pg'') = Inr b \<and> st (bt_sys b) = OnPostgres p"
proof -
  have t: "TrimSpace ''pg'' \<noteq> []" by (simp add: TrimSpace_Nil_iff runes_ascii IsSpace_def)
  have v: "cfg_Validate (sample_validators ''/run/dsn'') (sample_config ''pg'') = None"
    using t by (intro sample_validates) simp
  obtain b where b: "app_New (sample_services ''pg'') = Inr b"
    unfolding app_New_def app_init_def
    by (simp add: sample_services_simps New_sample sample_open_pg)
  have s: "server_New (sample_services ''pg'') = Inr (sample_config ''pg'')" by (simp add: sample_services_def)
  have "Getenv (sample_validators ''/run/dsn'') ''ACCESS_AUDIT_STORE_DSN_FILE'' \<noteq> []"
    by (simp add: sample_validators_def)
  from boot_fails_closed [OF s v this b] b show ?thesis by blast
qed

text \<open>C27: a service booted from a validated configuration seals with a key of at least 32 bytes, and
  its retention task never panics and has a positive window, whatever the interleaving.\<close>

theorem booted_service_is_armed:
  assumes "server_New sv = Inr cfg" and "cfg_Validate v cfg = None" and "tag_validator v"
    and "app_New sv = Inr b" and "task_reachable (app_task (bt_app b)) y t"
  shows "32 \<le> length (key (app_sealer (bt_app b))) \<and> rc_Sealer (app_task (bt_app b)) = app_sealer (bt_app b) \<and>
    0 < rc_Window (app_task (bt_app b)) \<and> \<not> panicked t"
proof -
  have "app_init sv cfg = Inr b" using assms(1,4) by (simp add: app_New_def)
  then obtain sealer mw where k: "New (SealKeyBytes cfg) = Inr sealer" and b: "bt_app b = container sv cfg sealer mw"
    by (elim app_init_cases)
  have tags: "tags_hold cfg" using assms(2,3) by (simp add: cfg_Validate_None tag_validator_def)
  have "key sealer = SealKey cfg" using k by (auto simp: New_def SealKeyBytes_def split: if_splits)
  then have "32 \<le> length (key sealer)" using tags length_runes_le [of "SealKey cfg"] by (simp add: tags_hold_def)
  moreover have "0 < rc_Interval (app_task (bt_app b))" "0 < rc_Window (app_task (bt_app b))"
    using tags by (simp_all add: b container_def task_config_def tags_hold_def)
  ultimately show ?thesis using no_panic [OF assms(5)] by (simp add: b container_def task_config_def)
qed

theorem booted_service_is_armed_witness:
  "32 \<le> length (key (app_sealer (bt_app sample_booted))) \<and> 0 < rc_Window (app_task (bt_app sample_booted))"
proof -
  have s: "server_New (sample_services []) = Inr (sample_config [])" by (simp add: sample_services_def)
  have v: "cfg_Validate (sample_validators []) (sample_config []) = None" by (intro sample_validates) simp
  show ?thesis
    using booted_service_is_armed [OF s v tag_validator_sample sample_boot task_reachable.new] by blast
qed

end
