(* ===== verification/Routes.thy ===== *)
theory Routes
  imports App
begin

text \<open>
  \<^verbatim>\<open>routes/\<close>: the scope check, every handler and the route table. A handler takes the
  container, the readings of the outside world, the request context and the system, and returns the
  answer with the system after it. The lemmas, for any store that meets \<open>store_contract\<close>, say what
  each handler does to the abstract log.
\<close>

type_synonym ('s, 'a, 'r) handler =
  "('s, 'a, 'r) App \<Rightarrow> world \<Rightarrow> ('a, 'r) ctx \<Rightarrow> 's sys \<Rightarrow> ('a, 'r) http \<times> 's sys"

section \<open>Scopes\<close>

text \<open>\<^verbatim>\<open>requireScope\<close>: \<open>None\<close> when the scope is there, otherwise the answer and the
  system after the denial event.\<close>

definition requireScope ::
    "('s, 'a, 'r) App \<Rightarrow> ('a, 'r) ctx \<Rightarrow> string \<Rightarrow> 's sys \<Rightarrow> (('a, 'r) http \<times> 's sys) option" where
  "requireScope a ctx level y =
     (if HasScopeLevel (User ctx) ''access-audit'' level then None
      else Some (Failed ForbiddenError,
                 on_tel (AuthzDenied (app_events a) (''access-audit:'' @ level) (user_ID (User ctx)) (Path ctx)) y))"

section \<open>Access records\<close>

definition recordAccess :: "('s, 'a, 'r) handler" where
  [route_defs]: "recordAccess a w ctx y =
     (case requireScope a ctx ''write'' y of
        Some denied \<Rightarrow> denied
      | None \<Rightarrow>
     (case Body_AccessRecord (app_framework a) ctx of
        Inl err \<Rightarrow> (Failed err, y)
      | Inr req \<Rightarrow>
     (let env = Sanitize (lower_table (app_framework a)) req
      in case Seal (fw_codec (app_framework a)) (app_sealer a) (Some env) of
        Inl err \<Rightarrow> (Failed err, y)
      | Inr sealHex \<Rightarrow>
     (case Config a of
        None \<Rightarrow> (Panicked ''configuration is not loaded'', y)
      | Some cfg \<Rightarrow>
     (case on_store (Append (app_store a) w
             \<lparr>RowID = [], Envelope = env, RowSeal = sealHex, Seq = 0,
              SourceService = user_ID (User ctx), System = cfg_System cfg\<rparr>) y of
        (Inl err, y) \<Rightarrow> (Failed err, y)
      | (Inr res, y) \<Rightarrow>
          (Reply (if \<not> Duplicate res then StatusCreated else StatusOK)
             (RecordedBody \<lparr>rp_RecordID = RecordID res, rp_EventID = ResEventID res, rp_Duplicate = Duplicate res\<rparr>),
           y))))))"

text \<open>\<^verbatim>\<open>timeRange\<close>: an absent or empty parameter leaves the zero time.\<close>

definition time_param :: "('a, 'r) ctx \<Rightarrow> string \<Rightarrow> error + time" where
  "time_param ctx name =
     (case QueryString ctx name of
        None \<Rightarrow> Inr 0
      | Some v \<Rightarrow>
          if v = [] then Inr 0
          else case parse_rfc3339 v of
                 None \<Rightarrow> Inl (ParamInvalidError name ''rfc3339'')
               | Some t \<Rightarrow> Inr t)"

definition timeRange :: "('a, 'r) ctx \<Rightarrow> error + time \<times> time" where
  "timeRange ctx =
     (case time_param ctx ''from'' of
        Inl err \<Rightarrow> Inl err
      | Inr t0 \<Rightarrow>
          (case time_param ctx ''to'' of
             Inl err \<Rightarrow> Inl err
           | Inr t1 \<Rightarrow> Inr (t0, t1)))"

text \<open>The loop over the records of a subject: each is reported with its integrity, each failure
  raises an event.\<close>

fun check_records ::
    "('s, 'a, 'r) App \<Rightarrow> string \<Rightarrow> ('a, 'r) access_record list \<Rightarrow> 's sys \<Rightarrow> ('a, 'r) SubjectRecord list \<times> 's sys" where
  "check_records a subject [] y = ([], y)"
| "check_records a subject (r # rs) y =
     (let ok = Verify (fw_codec (app_framework a)) (app_sealer a) (Some (Envelope r)) (RowSeal r);
          y1 = (if ok then y
                else on_tel (IntegrityMismatch (app_events a) (''subject:'' @ subject)
                       (''seal mismatch for record '' @ EventID (Envelope r))) y);
          (out, y2) = check_records a subject rs y1
      in (\<lparr>sr_Envelope = Envelope r, sr_Integrity = (if ok then ''ok'' else ''failed'')\<rparr> # out, y2))"

definition subjectRecords :: "('s, 'a, 'r) handler" where
  [route_defs]: "subjectRecords a w ctx y =
     (case requireScope a ctx ''read'' y of
        Some denied \<Rightarrow> denied
      | None \<Rightarrow>
     (let subject = Params ctx ''subject''
      in if subject = [] then (Failed (ParamRequiredError ''subject''), y)
         else
     (case timeRange ctx of
        Inl err \<Rightarrow> (Failed err, y)
      | Inr (t0, t1) \<Rightarrow>
     (case QueryInt ctx ''limit'' of
        Inl err \<Rightarrow> (Failed (ParamInvalidError ''limit'' ''numeric''), y)
      | Inr l \<Rightarrow>
     (let limit = (case l of None \<Rightarrow> 0 | Some l \<Rightarrow> l)
      in case on_store (BySubject (app_store a) subject t0 t1 limit) y of
        (Inl err, y) \<Rightarrow> (Failed err, y)
      | (Inr recs, y) \<Rightarrow>
          (case check_records a subject recs y of
             (out, y) \<Rightarrow>
               (Reply StatusOK (SubjectRecordsBody
                  \<lparr>srs_Subject = subject, srs_Count = int (length recs), srs_Records = out\<rparr>), y)))))))"

section \<open>Verification\<close>

fun mismatches :: "('s, 'a, 'r) App \<Rightarrow> ('a, 'r) access_record list \<Rightarrow> string list" where
  "mismatches a [] = []"
| "mismatches a (r # rs) =
     (if \<not> Verify (fw_codec (app_framework a)) (app_sealer a) (Some (Envelope r)) (RowSeal r)
      then EventID (Envelope r) # mismatches a rs else mismatches a rs)"

definition verifySubject ::
    "('s, 'a, 'r) App \<Rightarrow> string \<Rightarrow> 's sys \<Rightarrow> ('a, 'r) http \<times> 's sys" where
  [route_defs]: "verifySubject a subject y =
     (case on_store (BySubject (app_store a) subject 0 0 10000) y of
        (Inl err, y) \<Rightarrow> (Failed err, y)
      | (Inr recs, y) \<Rightarrow>
          let bad = mismatches a recs;
              ok = (bad = []);
              y = (if \<not> ok then on_tel (IntegrityMismatch (app_events a) (''subject:'' @ subject)
                       ''one or more seals failed'') y else y)
          in (Reply StatusOK (VerifyBody \<lparr>v_Scope = ''subject'', v_Target = subject,
                v_Checked = int (length recs), v_OK = ok, v_Mismatches = bad\<rparr>), y))"

definition normalizePeriod :: "string \<Rightarrow> string option" where
  "normalizePeriod s =
     (let s = (if length s = 7 then s @ ''-01'' else s)
      in case parse_date s of
           None \<Rightarrow> None
         | Some t \<Rightarrow> (case DateOf t of (y, m, d) \<Rightarrow> Some (format_date (DateOf (Date y m 1)))))"

definition verifyPeriod ::
    "('s, 'a, 'r) App \<Rightarrow> string \<Rightarrow> 's sys \<Rightarrow> ('a, 'r) http \<times> 's sys" where
  [route_defs]: "verifyPeriod a period y =
     (case normalizePeriod period of
        None \<Rightarrow> (Failed (ParamInvalidError ''period'' ''yyyy-mm''), y)
      | Some p \<Rightarrow>
     (case on_store (LoadCheckpoint (app_store a) p) y of
        (Inl err, y) \<Rightarrow> (Failed err, y)
      | (Inr None, y) \<Rightarrow> (Failed (NotFoundError ''checkpoint''), y)
      | (Inr (Some cp), y) \<Rightarrow>
     (case on_store (SealsForPeriod (app_store a) p) y of
        (Inl err, y) \<Rightarrow> (Failed err, y)
      | (Inr (seals, n), y) \<Rightarrow>
          let ok = VerifyCheckpoint (app_sealer a) seals n (CpSeal cp);
              y = (if \<not> ok then on_tel (IntegrityMismatch (app_events a) (''period:'' @ p)
                     (''checkpoint mismatch '' @ em_dash @ '' rows added or removed since sealing'')) y else y)
          in (Reply StatusOK (VerifyBody \<lparr>v_Scope = ''period'', v_Target = p, v_Checked = n, v_OK = ok,
                v_Mismatches = (if \<not> ok then [p] else [])\<rparr>), y))))"

definition query_value :: "('a, 'r) ctx \<Rightarrow> string \<Rightarrow> string option" where
  "query_value ctx name =
     (case QueryString ctx name of None \<Rightarrow> None | Some v \<Rightarrow> if v \<noteq> [] then Some v else None)"

definition verify :: "('s, 'a, 'r) handler" where
  [route_defs]: "verify a w ctx y =
     (case requireScope a ctx ''admin'' y of
        Some denied \<Rightarrow> denied
      | None \<Rightarrow>
     (case query_value ctx ''subject'' of
        Some v \<Rightarrow> verifySubject a v y
      | None \<Rightarrow>
     (case query_value ctx ''period'' of
        Some v \<Rightarrow> verifyPeriod a v y
      | None \<Rightarrow> (Failed (BadRequestError ''one of ?subject= or ?period= is required''), y))))"

section \<open>Evidence\<close>

definition recordVerifyEvent :: "('s, 'a, 'r) handler" where
  [route_defs]: "recordVerifyEvent a w ctx y =
     (if \<not> HasScopeLevel (User ctx) ''verify-audit'' ''write'' then
        (Failed ForbiddenError,
         on_tel (AuthzDenied (app_events a) ''verify-audit:write'' (user_ID (User ctx)) (Path ctx)) y)
      else
     (case BodyVerifyEvent ctx of
        Inl err \<Rightarrow> (Failed err, y)
      | Inr req \<Rightarrow>
     (if req_Verdict req = [] then (Failed (ParamRequiredError ''verdict''), y)
      else
     (case (if req_TS req \<noteq> [] then parse_rfc3339 (req_TS req) else Some (now w)) of
        None \<Rightarrow> (Failed (ParamInvalidError ''ts'' ''rfc3339''), y)
      | Some ts \<Rightarrow>
     (case on_store (AppendVerifyEvent (app_store a) w
             \<lparr>TS = ts, EvIP = req_IP req, UserAgent = req_UserAgent req, SizeBytes = req_SizeBytes req,
              SHA256 = req_SHA256 req, Verdict = req_Verdict req, CorrelationID = req_CorrelationID req,
              SessionID = req_SessionID req, EvSourceService = user_ID (User ctx)\<rparr>) y of
        (Inl err, y) \<Rightarrow> (Failed err, y)
      | (Inr i, y) \<Rightarrow> (Reply StatusCreated (EventIdBody i), y))))))"

section \<open>Governance\<close>

definition placeLegalHold :: "('s, 'a, 'r) handler" where
  [route_defs]: "placeLegalHold a w ctx y =
     (case requireScope a ctx ''admin'' y of
        Some denied \<Rightarrow> denied
      | None \<Rightarrow>
     (case Body_LegalHold (app_framework a) ctx of
        Inl err \<Rightarrow> (Failed err, y)
      | Inr req \<Rightarrow>
     (case on_store (SetLegalHold (app_store a) (Subject req) (Reason req) (user_ID (User ctx)) True) y of
        (Inl err, y) \<Rightarrow> (Failed err, y)
      | (Inr _, y) \<Rightarrow>
          (Reply StatusOK (LegalHoldBody \<lparr>lh_Subject = Subject req, lh_Hold = True\<rparr>),
           on_tel (LegalHoldChanged (app_events a) (Subject req) True (user_ID (User ctx))) y))))"

definition clearLegalHold :: "('s, 'a, 'r) handler" where
  [route_defs]: "clearLegalHold a w ctx y =
     (case requireScope a ctx ''admin'' y of
        Some denied \<Rightarrow> denied
      | None \<Rightarrow>
     (let subject = Params ctx ''subject''
      in if subject = [] then (Failed (ParamRequiredError ''subject''), y)
         else
     (case on_store (SetLegalHold (app_store a) subject [] (user_ID (User ctx)) False) y of
        (Inl err, y) \<Rightarrow> (Failed err, y)
      | (Inr _, y) \<Rightarrow>
          (Reply StatusOK (LegalHoldBody \<lparr>lh_Subject = subject, lh_Hold = False\<rparr>),
           on_tel (LegalHoldChanged (app_events a) subject False (user_ID (User ctx))) y))))"

definition purge :: "('s, 'a, 'r) handler" where
  [route_defs]: "purge a w ctx y =
     (case requireScope a ctx ''admin'' y of
        Some denied \<Rightarrow> denied
      | None \<Rightarrow>
     (case Config a of
        None \<Rightarrow> (Panicked ''configuration is not loaded'', y)
      | Some cfg \<Rightarrow>
     (let cutoff = Period (now w - RetentionWindow cfg)
      in case on_store (PurgeExpired (app_store a) cutoff) y of
        (Inl err, y) \<Rightarrow> (Failed err, y)
      | (Inr res, y) \<Rightarrow>
          (Reply StatusOK (PurgeBody \<lparr>pr_Cutoff = Cutoff res, pr_Purged = Purged res,
                pr_RetainedUnderHold = RetainedUnderHold res\<rparr>),
           on_tel (RetentionPurge (app_events a) (Cutoff res) (Purged res) (RetainedUnderHold res)) y))))"

section \<open>Health\<close>

definition healthz :: "('s, 'a, 'r) handler" where
  [route_defs]: "healthz a w ctx y = (Reply StatusOK (TextBody ''ok''), y)"

definition readyz :: "('s, 'a, 'r) handler" where
  [route_defs]: "readyz a w ctx y =
     (case on_store (Ping (app_store a)) y of
        (Inl err, y) \<Rightarrow> (Reply StatusServiceUnavailable (TextBody ''store unavailable''), y)
      | (Inr _, y) \<Rightarrow> (Reply StatusOK (TextBody ''ready''), y))"

section \<open>The route table\<close>

datatype meth = GET | POST | DELETE

record ('s, 'a, 'r) route =
  route_method :: meth
  route_path :: string
  route_authenticated :: bool
  route_handler :: "('s, 'a, 'r) handler"

definition v1 :: "meth \<Rightarrow> string \<Rightarrow> ('s, 'a, 'r) handler \<Rightarrow> ('s, 'a, 'r) route" where
  "v1 m p h = \<lparr>route_method = m, route_path = ''/v1'' @ p, route_authenticated = True, route_handler = h\<rparr>"

definition Init :: "('s, 'a, 'r) route list" where
  "Init =
     [\<lparr>route_method = GET, route_path = ''/healthz'', route_authenticated = False, route_handler = healthz\<rparr>,
      \<lparr>route_method = GET, route_path = ''/readyz'', route_authenticated = False, route_handler = readyz\<rparr>,
      v1 POST ''/access-records'' recordAccess,
      v1 POST ''/verify-events'' recordVerifyEvent,
      v1 GET ''/subjects/{subject}/access-records'' subjectRecords,
      v1 GET ''/verify'' verify,
      v1 POST ''/legal-holds'' placeLegalHold,
      v1 DELETE ''/legal-holds/{subject}'' clearLegalHold,
      v1 POST ''/purge'' purge]"

text \<open>One request on a matched route: a route of the group runs behind the middleware. The code hands
  the middleware to the group once, when \<^verbatim>\<open>Init\<close> runs; nothing replaces the field of the
  container after that (\<open>SetAuthMiddleware\<close> is for the tests, before \<^verbatim>\<open>Init\<close>), so reading
  it at the request is the same.\<close>

definition serve :: "('s, 'a, 'r) route \<Rightarrow> ('s, 'a, 'r) handler" where
  "serve rt a w ctx y =
     (if route_authenticated rt then
        (case authMW a ctx of
           Inl refused \<Rightarrow> (refused, y)
         | Inr ctx' \<Rightarrow> route_handler rt a w ctx' y)
      else route_handler rt a w ctx y)"

section \<open>Parameters\<close>

lemma length_pads: "n < 10000 \<Longrightarrow> length (pad 4 n) = 4" "n < 100 \<Longrightarrow> length (pad 2 n) = 2"
  by (simp_all add: pad_4 pad_2)

lemma length_format_date:
  assumes "0 \<le> y" "y \<le> 9999" "1 \<le> m" "m \<le> 12" "1 \<le> d" "d \<le> days_in m y"
  shows "length (format_date (y, m, d)) = 10"
proof -
  have "nat y < 10000" "nat m < 100" "nat d < 100" using assms days_in_pos [of m y] by linarith+
  then show ?thesis using assms by (simp add: format_date_def appendInt_def length_pads)
qed

lemma length_Period: "common_era t \<Longrightarrow> length (Period t) = 10"
  using month_of_range [of t] days_in_pos [of "month_of t" "year_of t"]
  by (simp add: Period_eq common_era_def length_format_date)

lemma Period_short: "common_era t \<Longrightarrow> take 7 (Period t) @ ''-01'' = Period t \<and> length (take 7 (Period t)) = 7"
proof -
  assume t: "common_era t"
  have "pad 2 1 = ''01''" by (simp add: pad_def decimal_1 digit_chars)
  moreover have "nat (year_of t) < 10000" "nat (month_of t) < 100"
    using t month_of_range [of t] unfolding common_era_def by linarith+
  ultimately show ?thesis
    using t month_of_range [of t] by (simp add: Period_eq common_era_def format_date_def appendInt_def length_pads)
qed

lemma normalizePeriod_ymd:
  assumes "0 \<le> y" "y \<le> 9999" "1 \<le> m" "m \<le> 12" "1 \<le> d" "d \<le> days_in m y"
  shows "normalizePeriod (format_date (y, m, d)) = Some (format_date (y, m, 1))"
proof -
  have "length (format_date (y, m, d)) = 10"
    using assms by (rule length_format_date)
  moreover have "DateOf (Date y m 1) = (y, m, 1)" using assms days_in_pos [of m y] by (intro DateOf_Date) simp_all
  ultimately show ?thesis
    using assms by (simp add: normalizePeriod_def parse_date_format DateOf_Date)
qed

lemma normalizePeriod_Period:
  assumes "common_era t"
  shows "normalizePeriod (Period t) = Some (Period t)" and "normalizePeriod (take 7 (Period t)) = Some (Period t)"
proof -
  show *: "normalizePeriod (Period t) = Some (Period t)"
    using normalizePeriod_ymd [of "year_of t" "month_of t" 1] month_of_range [of t] assms
      days_in_pos [of "month_of t" "year_of t"] by (simp add: Period_eq common_era_def)
  then show "normalizePeriod (take 7 (Period t)) = Some (Period t)"
    using Period_short [OF assms] length_Period [OF assms] by (simp add: normalizePeriod_def)
qed

text \<open>C28: the period parameter of the verification endpoint inverts the store's periods: the full
  period of an instant, its year and month alone, and the date of any day of its month all
  normalise to that period.\<close>

theorem normalize_period_roundtrip:
  assumes "common_era t"
  shows "normalizePeriod (Period t) = Some (Period t) \<and> normalizePeriod (take 7 (Period t)) = Some (Period t) \<and>
    normalizePeriod (format_date (DateOf t)) = Some (Period t)"
proof -
  obtain y m d where d: "DateOf t = (y, m, d)" by (metis prod_cases3)
  then have "civil_of_days (t div day_ns) = (y, m, d)" by (simp add: DateOf_def)
  from civil_of_days_bounds [OF this] show ?thesis
    using normalizePeriod_ymd [of y m d] assms normalizePeriod_Period [OF assms]
    by (simp add: d common_era_def Period_eq)
qed

theorem normalize_period_roundtrip_witness:
  "normalizePeriod ''2024-05-01'' = Some ''2024-05-01'' \<and> normalizePeriod ''2024-05'' = Some ''2024-05-01''"
  using normalize_period_roundtrip [OF common_era_samples(2)] by simp

text \<open>The time range of a subject read inverts the timestamp format of the log: bounds sent in
  RFC 3339 with nanoseconds are read back exactly, and an absent bound is the zero time, which
  the store treats as unbounded.\<close>

theorem time_range_roundtrip:
  assumes "common_era t0" and "common_era t1"
  shows "timeRange (ctx\<lparr>QueryString := [''from'' \<mapsto> format_rfc3339nano t0, ''to'' \<mapsto> format_rfc3339nano t1]\<rparr>) = Inr (t0, t1) \<and>
    timeRange (ctx\<lparr>QueryString := [''to'' \<mapsto> format_rfc3339nano t1]\<rparr>) = Inr (0, t1) \<and>
    timeRange (ctx\<lparr>QueryString := Map.empty\<rparr>) = Inr (0, 0)"
proof -
  have "parse_rfc3339 (format_rfc3339nano t) = Some t \<and> format_rfc3339nano t \<noteq> []" if "common_era t" for t
  proof -
    have p: "parse_rfc3339 (format_rfc3339nano t) = Some t"
      using that by (intro parse_rfc3339_format) (simp_all add: common_era_def)
    have "parse_rfc3339 [] = None" by (simp add: parse_rfc3339_def parse_ymd_def take_num_def)
    with p show ?thesis by auto
  qed
  with assms show ?thesis by (simp add: timeRange_def time_param_def)
qed

theorem time_range_roundtrip_witness:
  "timeRange ((sample_ctx [] sample_envelope)\<lparr>QueryString := [''to'' \<mapsto> format_rfc3339nano (Date 2024 5 17)]\<rparr>) =
     Inr (0, Date 2024 5 17)"
  using time_range_roundtrip [OF common_era_samples(1,2)] by blast

end
