(* ===== verification/Service.thy ===== *)
theory Service
  imports Routes
begin

text \<open>
  The running service: any interleaving of requests on the routes of \<open>Init\<close> and of retention
  sweeps. \<open>change\<close> lists, with the authorisation each needs, the only ways a request changes the
  abstract log; the locale \<open>wired\<close> holds the invariants of all reachable states, for any store
  that meets its contract, and is interpreted on the container that \<^verbatim>\<open>init\<close> builds.
\<close>

section \<open>Steps\<close>

text \<open>One step at instant \<open>t\<close>: a request, or a sweep of the task.\<close>

inductive step :: "('s, 'a, 'r) App \<Rightarrow> time \<Rightarrow> 's sys \<Rightarrow> 's sys \<Rightarrow> bool" for a where
  request: "rt \<in> set Init \<Longrightarrow> serve rt a w ctx y = (res, y') \<Longrightarrow> step a (now w) y y'"
| sweep: "step a (now (clk 0)) y (runOnce (app_task a) clk y)"

inductive_cases stepE: "step a t y y'"

inductive reachable :: "('s, 'a, 'r) App \<Rightarrow> 's sys \<Rightarrow> 's sys \<Rightarrow> bool" for a y0 where
  boot: "reachable a y0 y0"
| next_step: "reachable a y0 y \<Longrightarrow> step a t y y' \<Longrightarrow> reachable a y0 y'"

text \<open>The row \<^verbatim>\<open>recordAccess\<close> hands to the store for an accepted request.\<close>

definition accepted_row :: "('s, 'a, 'r) App \<Rightarrow> ('a, 'r) ctx \<Rightarrow> ('a, 'r) access_record \<Rightarrow> bool" where
  "accepted_row a ctx r \<longleftrightarrow>
     (\<exists>req cfg.
        Body_AccessRecord (app_framework a) ctx = Inr req \<and> Config a = Some cfg \<and>
        Envelope r = Sanitize (lower_table (app_framework a)) req \<and>
        Seal (fw_codec (app_framework a)) (app_sealer a) (Some (Envelope r)) = Inr (RowSeal r) \<and>
        SourceService r = user_ID (User ctx) \<and> System r = cfg_System cfg)"

inductive change ::
    "('s, 'a, 'r) App \<Rightarrow> world \<Rightarrow> ('a, 'r) ctx \<Rightarrow> ('a, 'r) spec \<Rightarrow> ('a, 'r) spec \<Rightarrow> bool" for a w ctx \<sigma> where
  unchanged: "change a w ctx \<sigma> \<sigma>"
| appended: "HasScopeLevel (User ctx) ''access-audit'' ''write'' \<Longrightarrow> accepted_row a ctx r \<Longrightarrow>
    change a w ctx \<sigma> (spec_append r \<sigma>)"
| hold_changed: "HasScopeLevel (User ctx) ''access-audit'' ''admin'' \<Longrightarrow> change a w ctx \<sigma> (spec_hold s h \<sigma>)"
| purged: "HasScopeLevel (User ctx) ''access-audit'' ''admin'' \<Longrightarrow> Config a = Some cfg \<Longrightarrow>
    change a w ctx \<sigma> (spec_purge (Period (now w - RetentionWindow cfg)) \<sigma>)"
| evidenced: "HasScopeLevel (User ctx) ''verify-audit'' ''write'' \<Longrightarrow> EvSourceService ev = user_ID (User ctx) \<Longrightarrow>
    change a w ctx \<sigma> (spec_record_evidence ev \<sigma>)"

inductive_cases changeE: "change a w ctx \<sigma> \<sigma>'"

section \<open>What each handler does\<close>

lemma requireScope_cases:
  obtains "HasScopeLevel (User ctx) ''access-audit'' level" "requireScope a ctx level y = None"
  | y1 where "\<not> HasScopeLevel (User ctx) ''access-audit'' level"
      "requireScope a ctx level y = Some (Failed ForbiddenError, y1)" "st y1 = st y"
      "tel y1 = AuthzDenied (app_events a) (''access-audit:'' @ level) (user_ID (User ctx)) (Path ctx) (tel y)"
  by (cases "HasScopeLevel (User ctx) ''access-audit'' level") (auto simp: requireScope_def)

lemma check_records_sys:
  "st (snd (check_records a subject rs y)) = st y \<and> tel_extends (tel y) (tel (snd (check_records a subject rs y)))"
proof (induction rs arbitrary: y)
  case Nil
  then show ?case by simp
next
  case (Cons r rs)
  define y1 where "y1 = (if Verify (fw_codec (app_framework a)) (app_sealer a) (Some (Envelope r)) (RowSeal r) then y
    else on_tel (IntegrityMismatch (app_events a) (''subject:'' @ subject)
      (''seal mismatch for record '' @ EventID (Envelope r))) y)"
  have y1: "st y1 = st y" "tel_extends (tel y) (tel y1)" by (auto simp: y1_def)
  have "snd (check_records a subject (r # rs) y) = snd (check_records a subject rs y1)"
    unfolding check_records.simps Let_def y1_def [symmetric] by (simp split: prod.splits)
  then show ?case using Cons.IH [of y1] y1 tel_extends_trans by auto
qed

lemma check_records_call:
  "check_records a subject rs y = (out, y') \<Longrightarrow> st y' = st y \<and> tel_extends (tel y) (tel y')"
  using check_records_sys [of a subject rs y] by simp

abbreviation verifies :: "('s, 'a, 'r) App \<Rightarrow> ('a, 'r) access_record \<Rightarrow> bool" where
  "verifies a r \<equiv> Verify (fw_codec (app_framework a)) (app_sealer a) (Some (Envelope r)) (RowSeal r)"

lemma check_records_out:
  "fst (check_records a subject rs y) =
     map (\<lambda>r. \<lparr>sr_Envelope = Envelope r, sr_Integrity = (if verifies a r then ''ok'' else ''failed'')\<rparr>) rs"
proof (induction rs arbitrary: y)
  case (Cons r rs)
  then show ?case by (simp add: Let_def case_prod_beta)
qed simp

lemma check_records_quiet:
  assumes "\<forall>r \<in> set rs. verifies a r"
  shows "snd (check_records a subject rs y) = y"
  using assms
proof (induction rs arbitrary: y)
  case (Cons r rs)
  then show ?case by (simp add: Let_def case_prod_beta)
qed simp

lemma mismatches_eq:
  "mismatches a rs = map (\<lambda>r. EventID (Envelope r))
     (filter (\<lambda>r. \<not> Verify (fw_codec (app_framework a)) (app_sealer a) (Some (Envelope r)) (RowSeal r)) rs)"
  by (induction rs) simp_all

text \<open>Every stored entry verifies under its seal, was accepted by the validation and is sanitised.\<close>

definition sound_entry :: "('s, 'a, 'r) App \<Rightarrow> ('a, 'r) entry \<Rightarrow> bool" where
  "sound_entry a e \<longleftrightarrow>
     Verify (fw_codec (app_framework a)) (app_sealer a) (Some (en_Envelope e)) (en_Seal e) \<and>
     Validate (CategoryGDPRAccess (app_framework a)) (en_Envelope e) = None \<and>
     Sanitize (lower_table (app_framework a)) (en_Envelope e) = en_Envelope e"

definition sound_log :: "('s, 'a, 'r) App \<Rightarrow> ('a, 'r) spec \<Rightarrow> bool" where
  "sound_log a \<sigma> \<longleftrightarrow> (\<forall>e \<in> ran (log \<sigma>). sound_entry a e)"

lemma accepted_row_sound: "accepted_row a ctx r \<Longrightarrow> sound_entry a (entry_of r)"
  by (auto simp: accepted_row_def sound_entry_def Verify_Seal Body_AccessRecord_ok Sanitize_idem_lemma)

lemma sound_log_append: "sound_log a \<sigma> \<Longrightarrow> sound_entry a (entry_of r) \<Longrightarrow> sound_log a (spec_append r \<sigma>)"
  by (auto simp: sound_log_def spec_append_def Let_def ran_def split: if_splits)

lemma sound_log_purge: "sound_log a \<sigma> \<Longrightarrow> sound_log a (spec_purge c \<sigma>)"
  by (auto simp: sound_log_def ran_def spec_purge_log)

lemma sound_log_change:
  assumes "change a w ctx \<sigma> \<sigma>'" and "sound_log a \<sigma>"
  shows "sound_log a \<sigma>'"
  using assms
proof (cases rule: change.cases)
  case (appended r)
  then show ?thesis using accepted_row_sound sound_log_append assms(2) by blast
next
  case (purged cfg)
  then show ?thesis using sound_log_purge assms(2) by blast
qed (simp_all add: sound_log_def spec_hold_def spec_record_evidence_def)

lemma change_cps: "change a w ctx \<sigma> \<sigma>' \<Longrightarrow> cps \<sigma>' = cps \<sigma>"
  by (erule change.cases) (simp_all add: spec_append_def Let_def spec_hold_def spec_purge_frame spec_record_evidence_def)

text \<open>What each scope can do to the log.\<close>

definition scoped_change :: "user \<Rightarrow> ('a, 'r) spec \<Rightarrow> ('a, 'r) spec \<Rightarrow> bool" where
  "scoped_change u \<sigma> \<sigma>' \<longleftrightarrow> cps \<sigma>' = cps \<sigma> \<and>
     (HasScopeLevel u ''access-audit'' ''write'' \<and> log \<sigma> \<subseteq>\<^sub>m log \<sigma>' \<and> held \<sigma>' = held \<sigma> \<and> evidence \<sigma>' = evidence \<sigma> \<or>
      HasScopeLevel u ''access-audit'' ''admin'' \<and> log \<sigma>' \<subseteq>\<^sub>m log \<sigma> \<and> evidence \<sigma>' = evidence \<sigma> \<or>
      HasScopeLevel u ''verify-audit'' ''write'' \<and> log \<sigma>' = log \<sigma> \<and> held \<sigma>' = held \<sigma> \<and>
        (\<exists>ev. evidence \<sigma>' = evidence \<sigma> @ [ev] \<and> EvSourceService ev = user_ID u))"

lemma change_scoped:
  assumes "change a w ctx \<sigma> \<sigma>'"
  shows "\<sigma>' = \<sigma> \<or> scoped_change (User ctx) \<sigma> \<sigma>'"
  using assms
proof (cases rule: change.cases)
  case (appended r)
  then show ?thesis by (auto simp: scoped_change_def spec_append_def Let_def map_le_def)
next
  case (purged cfg)
  then show ?thesis by (auto simp: scoped_change_def spec_purge_frame map_le_def spec_purge_def split: option.splits if_splits)
next
  case (hold_changed s h)
  then show ?thesis by (simp add: scoped_change_def spec_hold_def)
next
  case (evidenced ev)
  then show ?thesis by (auto simp: scoped_change_def spec_record_evidence_def)
qed simp

lemma change_entry:
  assumes "change a w ctx \<sigma> \<sigma>'" and "log \<sigma> k = Some e"
  shows "log \<sigma>' k = Some e \<or>
    (log \<sigma>' k = None \<and> (\<exists>cfg. Config a = Some cfg \<and> \<not> survives (Period (now w - RetentionWindow cfg)) \<sigma> e))"
  using assms
proof (cases rule: change.cases)
  case (purged cfg)
  then show ?thesis using assms(2) by (auto simp: spec_purge_def)
qed (auto simp: spec_append_keeps spec_hold_def spec_record_evidence_def)

locale wired = store_contract +
  fixes a :: "('a, 'b, 'c) App"
  assumes store_wired: "app_store a = S"
    and task_wired: "rc_Store (app_task a) = S" "rc_Sealer (app_task a) = app_sealer a"
    and window_wired: "Config a = Some cfg \<Longrightarrow> RetentionWindow cfg = rc_Window (app_task a)"
begin

abbreviation effect :: "world \<Rightarrow> ('b, 'c) ctx \<Rightarrow> 'a sys \<Rightarrow> 'a sys \<Rightarrow> bool" where
  "effect w ctx y y' \<equiv> inv (st y') \<and> change a w ctx (abs (st y)) (abs (st y')) \<and> tel_extends (tel y) (tel y')"

text \<open>The laws of the store, for calls through the system.\<close>

lemma append_call:
  "on_store (Append S w r) y = (x, y') \<Longrightarrow> inv (st y) \<Longrightarrow> inv (st y') \<and> tel y' = tel y \<and>
    (case x of Inl e \<Rightarrow> abs (st y') = abs (st y) | Inr res \<Rightarrow> abs (st y') = spec_append r (abs (st y)))"
  by (elim on_store_cases) (drule (1) append_law, simp split: sum.splits)

lemma hold_call:
  "on_store (SetLegalHold S s rs b h) y = (x, y') \<Longrightarrow> inv (st y) \<Longrightarrow> inv (st y') \<and> tel y' = tel y \<and>
    (case x of Inl e \<Rightarrow> abs (st y') = abs (st y) | Inr res \<Rightarrow> abs (st y') = spec_hold s h (abs (st y)))"
  by (elim on_store_cases) (drule (1) hold_law, simp split: sum.splits)

lemma purge_call:
  "on_store (PurgeExpired S cutoff) y = (x, y') \<Longrightarrow> inv (st y) \<Longrightarrow> inv (st y') \<and> tel y' = tel y \<and>
    (case x of Inl e \<Rightarrow> abs (st y') = abs (st y) | Inr res \<Rightarrow> abs (st y') = spec_purge cutoff (abs (st y)))"
  by (elim on_store_cases) (drule (1) purge_law, simp split: sum.splits)

lemma evidence_call:
  "on_store (AppendVerifyEvent S w ev) y = (x, y') \<Longrightarrow> inv (st y) \<Longrightarrow> inv (st y') \<and> tel y' = tel y \<and>
    (case x of Inl e \<Rightarrow> abs (st y') = abs (st y) | Inr res \<Rightarrow> abs (st y') = spec_record_evidence ev (abs (st y)))"
  by (elim on_store_cases) (drule (1) evidence_law, simp split: sum.splits)

lemma read_calls:
  "on_store (BySubject S s t0 t1 l) y = (x, y') \<Longrightarrow> inv (st y) \<Longrightarrow> inv (st y') \<and> tel y' = tel y \<and> abs (st y') = abs (st y)"
  "on_store (SealsForPeriod S p) y = (z, y') \<Longrightarrow> inv (st y) \<Longrightarrow> inv (st y') \<and> tel y' = tel y \<and> abs (st y') = abs (st y)"
  "on_store (LoadCheckpoint S p) y = (c, y') \<Longrightarrow> inv (st y) \<Longrightarrow> inv (st y') \<and> tel y' = tel y \<and> abs (st y') = abs (st y)"
  "on_store (Ping S) y = (u, y') \<Longrightarrow> inv (st y) \<Longrightarrow> inv (st y') \<and> tel y' = tel y \<and> abs (st y') = abs (st y)"
     apply (elim on_store_cases, drule (1) by_subject_law, simp)
    apply (elim on_store_cases, drule (1) seals_law, simp)
   apply (elim on_store_cases, drule (1) load_law, simp)
  apply (elim on_store_cases, drule (1) ping_law, simp)
  done

lemmas calls = append_call hold_call purge_call evidence_call read_calls

lemma denied_effect: "requireScope a ctx level y = Some (r, y') \<Longrightarrow> inv (st y) \<Longrightarrow> effect w ctx y y'"
  by (auto simp: requireScope_def intro: change.intros split: if_splits)

lemma scope_granted: "requireScope a ctx level y = None \<Longrightarrow> HasScopeLevel (User ctx) ''access-audit'' level"
  by (auto simp: requireScope_def split: if_splits)

lemma recordAccess_effect:
  assumes "inv (st y)" and "recordAccess a w ctx y = (res, y')"
  shows "effect w ctx y y'"
  using assms
  by (auto simp: recordAccess_def store_wired Let_def accepted_row_def
      split: sum.splits option.splits prod.splits
      dest!: append_call dest: denied_effect scope_granted intro: change.unchanged intro!: change.appended)

lemma subjectRecords_effect:
  assumes "inv (st y)" and "subjectRecords a w ctx y = (res, y')"
  shows "effect w ctx y y'"
  using assms
  by (auto simp: subjectRecords_def store_wired Let_def
      split: sum.splits option.splits prod.splits if_splits
      dest!: read_calls check_records_call dest: denied_effect intro: change.unchanged)

lemma verifySubject_effect:
  assumes "inv (st y)" and "verifySubject a s y = (res, y')"
  shows "effect w ctx y y'"
  using assms
  by (auto simp: verifySubject_def store_wired Let_def split: sum.splits prod.splits if_splits
      dest!: read_calls intro: change.unchanged)

lemma verifyPeriod_effect:
  assumes "inv (st y)" and "verifyPeriod a p y = (res, y')"
  shows "effect w ctx y y'"
  using assms
  by (auto simp: verifyPeriod_def store_wired Let_def split: sum.splits prod.splits if_splits option.splits
      dest!: read_calls intro: change.unchanged)

lemma verify_effect:
  assumes "inv (st y)" and "verify a w ctx y = (res, y')"
  shows "effect w ctx y y'"
  using assms
  by (auto simp: verify_def split: option.splits
      dest: denied_effect verifySubject_effect verifyPeriod_effect intro: change.unchanged)

lemma recordVerifyEvent_effect:
  assumes "inv (st y)" and "recordVerifyEvent a w ctx y = (res, y')"
  shows "effect w ctx y y'"
  using assms
  by (auto simp: recordVerifyEvent_def store_wired split: sum.splits option.splits prod.splits if_splits
      dest!: evidence_call intro: change.unchanged intro!: change.evidenced)

lemma placeLegalHold_effect:
  assumes "inv (st y)" and "placeLegalHold a w ctx y = (res, y')"
  shows "effect w ctx y y'"
  using assms
  by (auto simp: placeLegalHold_def store_wired split: sum.splits option.splits prod.splits
      dest!: hold_call dest: denied_effect scope_granted intro: change.unchanged intro!: change.hold_changed)

lemma clearLegalHold_effect:
  assumes "inv (st y)" and "clearLegalHold a w ctx y = (res, y')"
  shows "effect w ctx y y'"
  using assms
  by (auto simp: clearLegalHold_def store_wired Let_def split: sum.splits option.splits prod.splits if_splits
      dest!: hold_call dest: denied_effect scope_granted intro: change.unchanged intro!: change.hold_changed)

lemma purge_effect:
  assumes "inv (st y)" and "purge a w ctx y = (res, y')"
  shows "effect w ctx y y'"
  using assms
  by (auto simp: purge_def store_wired Let_def split: sum.splits option.splits prod.splits
      dest!: purge_call dest: denied_effect scope_granted intro: change.unchanged intro!: change.purged)

lemma health_effect:
  assumes "inv (st y)"
  shows "healthz a w ctx y = (res, y') \<Longrightarrow> effect w ctx y y'" and "readyz a w ctx y = (res, y') \<Longrightarrow> effect w ctx y y'"
  using assms
  by (auto simp: healthz_def readyz_def store_wired split: sum.splits prod.splits dest!: read_calls
      intro: change.unchanged)

lemmas handler_effects = recordAccess_effect subjectRecords_effect verify_effect recordVerifyEvent_effect
  placeLegalHold_effect clearLegalHold_effect purge_effect health_effect

text \<open>The public routes change nothing; behind the middleware only a change of \<open>change\<close>
  happens, for the authenticated caller.\<close>

lemma public_unchanged:
  assumes "inv (st y)" and "rt \<in> set Init" and "\<not> route_authenticated rt" and "route_handler rt a w ctx y = (res, y')"
  shows "inv (st y') \<and> abs (st y') = abs (st y) \<and> tel y' = tel y"
  using assms
  by (auto simp: Init_def v1_def healthz_def readyz_def store_wired split: sum.splits prod.splits dest!: read_calls)

lemma private_effect:
  assumes "inv (st y)" and "rt \<in> set Init" and "route_handler rt a w ctx y = (res, y')"
  shows "effect w ctx y y'"
  using assms handler_effects [of y w ctx res y'] by (auto simp: Init_def v1_def)

lemma serve_effect:
  assumes "inv (st y)" and "rt \<in> set Init" and "serve rt a w ctx y = (res, y')"
  shows "inv (st y') \<and> tel_extends (tel y) (tel y') \<and>
    (abs (st y') = abs (st y) \<or>
     (\<exists>ctx'. authMW a ctx = Inr ctx' \<and> change a w ctx' (abs (st y)) (abs (st y'))))"
  using assms public_unchanged [OF assms(1,2)] private_effect [OF assms(1,2)]
  by (auto simp: serve_def split: if_splits sum.splits)

subsection \<open>Invariants of every run\<close>

lemma step_inv: "step a t y y' \<Longrightarrow> inv (st y) \<Longrightarrow> inv (st y')"
  by (erule stepE) (use serve_effect runOnce_effect [OF _ task_wired(1)] in blast)+

lemma step_tel: "step a t y y' \<Longrightarrow> inv (st y) \<Longrightarrow> tel_extends (tel y) (tel y')"
  by (erule stepE) (use serve_effect runOnce_effect [OF _ task_wired(1)] in blast)+

lemma step_entry:
  assumes "step a t y y'" and "inv (st y)" and e: "log (abs (st y)) k = Some e"
  shows "log (abs (st y')) k = Some e \<or>
    (log (abs (st y')) k = None \<and> \<not> survives (Period (t - rc_Window (app_task a))) (abs (st y)) e)"
  using assms(1)
proof (cases rule: step.cases)
  case (request rt w ctx res)
  from serve_effect [OF assms(2) request(2,3)] show ?thesis
    using change_entry [OF _ e] window_wired e request(1) by (metis (no_types, lifting))
next
  case (sweep clk)
  obtain \<sigma> where "sealed_by (rc_Sealer (app_task a)) (abs (st y)) \<sigma>"
    and "log (abs (st y')) \<in> {log \<sigma>, log (spec_purge (Period (now (clk 0) - rc_Window (app_task a))) \<sigma>)}"
    using runOnce_effect [OF assms(2) task_wired(1), of clk] sweep(2) by metis
  then show ?thesis
    using e sweep(1) by (auto simp: sealed_by_def spec_purge_def survives_def)
qed

lemma step_cps:
  assumes "step a t y y'" and "inv (st y)"
  shows "cps (abs (st y)) \<subseteq>\<^sub>m cps (abs (st y'))"
  using assms(1)
proof (cases rule: step.cases)
  case (request rt w ctx res)
  from serve_effect [OF assms(2) request(2,3)] show ?thesis
    using change_cps by (metis map_le_refl)
next
  case (sweep clk)
  obtain \<sigma> where "sealed_by (rc_Sealer (app_task a)) (abs (st y)) \<sigma>" and "cps (abs (st y')) = cps \<sigma>"
    using runOnce_effect [OF assms(2) task_wired(1), of clk] sweep(2) by metis
  then show ?thesis by (simp add: sealed_by_def)
qed

lemma step_sound:
  assumes "step a t y y'" and "inv (st y)" and "sound_log a (abs (st y))"
  shows "sound_log a (abs (st y'))"
  using assms(1)
proof (cases rule: step.cases)
  case (request rt w ctx res)
  from serve_effect [OF assms(2) request(2,3)] show ?thesis
    using sound_log_change assms(3) by metis
next
  case (sweep clk)
  obtain \<sigma> where "sealed_by (rc_Sealer (app_task a)) (abs (st y)) \<sigma>"
    and "log (abs (st y')) \<in> {log \<sigma>, log (spec_purge (Period (now (clk 0) - rc_Window (app_task a))) \<sigma>)}"
    using runOnce_effect [OF assms(2) task_wired(1), of clk] sweep(2) by metis
  then show ?thesis
    using assms(3) sound_log_purge [of a \<sigma>] by (auto simp: sealed_by_def sound_log_def)
qed

lemma reachable_inv: "reachable a y0 y \<Longrightarrow> inv (st y0) \<Longrightarrow> inv (st y)"
  by (induction rule: reachable.induct) (auto intro: step_inv)

lemma reachable_sound:
  "reachable a y0 y \<Longrightarrow> inv (st y0) \<Longrightarrow> sound_log a (abs (st y0)) \<Longrightarrow> sound_log a (abs (st y))"
  by (induction rule: reachable.induct) (auto intro: step_sound reachable_inv)

lemma reachable_cps: "reachable a y0 y \<Longrightarrow> inv (st y0) \<Longrightarrow> cps (abs (st y0)) \<subseteq>\<^sub>m cps (abs (st y))"
  by (induction rule: reachable.induct) (auto intro: map_le_trans step_cps reachable_inv)

text \<open>Reads of a sound log: every record of a subject verifies.\<close>

lemma subject_read_verifies:
  assumes "inv (st y)" and "sound_log a (abs (st y))"
    and "on_store (BySubject S s t0 t1 l) y = (Inr rs, y')" and "r \<in> set rs"
  shows "verifies a r"
proof -
  obtain s' where "BySubject S s t0 t1 l (st y) = (Inr rs, s')" using assms(3) by (elim on_store_cases)
  then have "subject_answer s t0 t1 l (abs (st y)) rs" using by_subject_law [OF assms(1)] by blast
  then have "shown (entry_of r) \<in> shown ` spec_matches s t0 t1 (abs (st y))"
    using assms(4) unfolding subject_answer_def by blast
  then obtain e where "e \<in> ran (log (abs (st y)))" "shown (entry_of r) = shown e" by (auto simp: spec_matches_def)
  moreover from this have "sound_entry a e" using assms(2) by (simp add: sound_log_def)
  ultimately show ?thesis by (simp add: sound_entry_def shown_def)
qed

end

section \<open>The wired service\<close>

text \<open>Without a connection string the store is the in-memory one for ever, whatever the PostgreSQL
  backend does: the invariant of the interface value excludes the other constructor.\<close>

abbreviation on_memory :: "('p, 'a, 'r) backend \<Rightarrow> bool" where
  "on_memory \<equiv> backend_inv mem_inv (\<lambda>p. False)"

abbreviation log_of :: "('p, 'a, 'r) backend \<Rightarrow> ('a, 'r) spec" where
  "log_of \<equiv> backend_abs (\<lambda>p. mem_abs NewMemory)"

lemma container_simps [simp]:
  "app_store (container sv cfg sealer mw) = store_iface (postgres_ops sv)"
  "rc_Store (app_task (container sv cfg sealer mw)) = store_iface (postgres_ops sv)"
  "rc_Sealer (app_task (container sv cfg sealer mw)) = sealer" "app_sealer (container sv cfg sealer mw) = sealer"
  "rc_Window (app_task (container sv cfg sealer mw)) = RetentionWindow cfg"
  "rc_VerifyRetentionDays (app_task (container sv cfg sealer mw)) = VerifyRetentionDays cfg"
  "app_framework (container sv cfg sealer mw) = sv_framework sv" "authMW (container sv cfg sealer mw) = mw"
  "app_events (container sv cfg sealer mw) = NewEmitter (sec_sink sv)"
  by (simp_all add: container_def task_config_def)

lemma on_memory_cases:
  assumes "on_memory s"
  obtains m where "s = InMemory m" "mem_inv m" "log_of s = mem_abs m"
  using assms by (cases s) auto

interpretation svc: wired "store_iface (postgres_ops sv)" on_memory log_of "container sv cfg sealer mw"
  using store_iface_contract [OF mem.store_contract_axioms unused_contract [of "postgres_ops sv" "\<lambda>p. mem_abs NewMemory"]]
  by (intro wired.intro wired_axioms.intro) simp_all

lemma dispatch_total:
  assumes "on_memory s" and "\<And>m. mem_inv m \<Longrightarrow> isl (fst (f m)) = False"
  shows "isl (fst (dispatch_store f g s)) = False"
  using assms by (auto simp: dispatch_store_def split: prod.splits elim!: on_memory_cases) (metis fst_conv)

interpretation dev: reliable_store "store_iface (postgres_ops sv)" on_memory log_of
  by (intro reliable_store.intro store_iface_contract mem.store_contract_axioms unused_contract reliable_store_axioms.intro)
    (simp_all add: dispatch_total mem.append_total [simplified] mem.by_subject_total [simplified]
      mem.seals_total [simplified] mem.pending_total [simplified] mem.save_total [simplified]
      mem.load_total [simplified] mem.hold_total [simplified] mem.purge_total [simplified]
      mem.evidence_total [simplified] mem.sweep_total [simplified] mem.ping_total [simplified])

text \<open>A service booted without a connection string.\<close>

definition boots_on_memory :: "('p, 'a, 'r) services \<Rightarrow> Configuration \<Rightarrow> ('p, 'a, 'r) booted \<Rightarrow> bool" where
  "boots_on_memory sv cfg b \<longleftrightarrow> server_New sv = Inr cfg \<and> StoreDSN cfg = [] \<and> app_New sv = Inr b"

lemma boots_on_memory_cases:
  assumes "boots_on_memory sv cfg b"
  obtains sealer mw where "bt_app b = container sv cfg sealer mw" "st (bt_sys b) = InMemory NewMemory"
    "on_memory (st (bt_sys b))" "sound_log (bt_app b) (log_of (st (bt_sys b)))"
proof -
  have i: "app_init sv cfg = Inr b" and d: "StoreDSN cfg = []"
    using assms by (auto simp: boots_on_memory_def app_New_def)
  obtain sealer mw s ls where c: "bt_app b = container sv cfg sealer mw" and o: "open_store sv cfg = Inr (s, ls)"
      "bt_sys b = \<lparr>st = s, tel = \<lparr>emitted = [], emit_failures = []\<rparr>, logs = ls\<rparr>"
    using app_init_cases [OF i] by metis
  have s: "st (bt_sys b) = InMemory NewMemory" using open_store_memory [OF d o(1)] o(2) by simp
  then have "sound_log (bt_app b) (log_of (st (bt_sys b)))" by (simp add: sound_log_def ran_def NewMemory_def)
  with mem_inv_NewMemory show ?thesis by (intro that [OF c s]) (simp_all add: s)
qed

lemma reachable_memory:
  assumes "boots_on_memory sv cfg b" and "reachable (bt_app b) (bt_sys b) y"
  obtains m where "st y = InMemory m" "mem_inv m" "on_memory (st y)" "sound_log (bt_app b) (mem_abs m)"
proof -
  obtain sealer mw where c: "bt_app b = container sv cfg sealer mw" and o: "on_memory (st (bt_sys b))"
      "sound_log (bt_app b) (log_of (st (bt_sys b)))"
    using boots_on_memory_cases [OF assms(1)] by metis
  have "on_memory (st y)" "sound_log (bt_app b) (log_of (st y))"
    using svc.reachable_inv svc.reachable_sound assms(2) o unfolding c by blast+
  then show ?thesis using that by (metis on_memory_cases)
qed

text \<open>A sweep of such a service, on the concrete store.\<close>

lemma sweep_on_memory:
  assumes "boots_on_memory sv cfg b" and "st y = InMemory m" and "mem_inv m"
  obtains m' \<sigma> where "st (runOnce (app_task (bt_app b)) clk y) = InMemory m'" "mem_inv m'"
    "sealed_by (app_sealer (bt_app b)) (mem_abs m) \<sigma>"
    "dom (cps \<sigma>) = spec_pending (Period (now (clk 0))) (mem_abs m) \<union> dom (checkpoints m)"
    "checkpoints m' = cps \<sigma>" "held (mem_abs m') = held (mem_abs m)"
    "log (mem_abs m') = log (spec_purge (Period (now (clk 0) - RetentionWindow cfg)) \<sigma>)"
proof -
  obtain sealer mw where c: "bt_app b = container sv cfg sealer mw"
    using boots_on_memory_cases [OF assms(1)] by metis
  let ?y = "runOnce (app_task (bt_app b)) clk y"
  have o: "on_memory (st y)" by (simp add: assms(2,3))
  have rc: "rc_Store (app_task (bt_app b)) = store_iface (postgres_ops sv)" by (simp add: c)
  show ?thesis
  proof (rule dev.runOnce_exact [OF o rc, of clk])
    fix \<sigma>
    assume s: "sealed_by (rc_Sealer (app_task (bt_app b))) (log_of (st y)) \<sigma>"
      and d: "dom (cps \<sigma>) = spec_pending (Period (now (clk 0))) (log_of (st y)) \<union> dom (cps (log_of (st y)))"
      and i: "on_memory (st ?y)"
      and e: "log_of (st ?y) = (if 0 < rc_VerifyRetentionDays (app_task (bt_app b))
         then spec_sweep (now (clk 1) - rc_VerifyRetentionDays (app_task (bt_app b)) * day_ns)
                (spec_purge (Period (now (clk 0) - rc_Window (app_task (bt_app b)))) \<sigma>)
         else spec_purge (Period (now (clk 0) - rc_Window (app_task (bt_app b)))) \<sigma>)"
    obtain m' where m': "st ?y = InMemory m'" "mem_inv m'" "log_of (st ?y) = mem_abs m'"
      using i by (elim on_memory_cases)
    let ?p = "spec_purge (Period (now (clk 0) - RetentionWindow cfg)) \<sigma>"
    have "log (mem_abs m') = log ?p" "cps (mem_abs m') = cps \<sigma>" "held (mem_abs m') = held \<sigma>"
      using e unfolding m'(3) by (simp_all add: c spec_sweep_def spec_purge_frame del: mem_abs_simps split: if_splits)
    then show ?thesis
      using that [of m' \<sigma>] m' s d by (simp add: assms(2) c sealed_by_def del: mem_abs_simps(1,3,4))
  qed
qed

section \<open>A concrete run\<close>

text \<open>The sample service after one accepted record, to instantiate the properties.\<close>

abbreviation sample_app :: "(((string, string) Memory, string, string) backend, string, string) App" where
  "sample_app \<equiv> bt_app sample_booted"

definition sample_caller :: "string \<Rightarrow> (string, string) ctx" where
  "sample_caller scopes = (sample_ctx scopes sample_envelope)\<lparr>User := sample_user ''svc:test-client'' scopes\<rparr>"

definition sample_post :: "world \<Rightarrow> ((string, string) Memory, string, string) backend sys \<Rightarrow>
    (string, string) http \<times> ((string, string) Memory, string, string) backend sys" where
  "sample_post w = serve (v1 POST ''/access-records'' recordAccess) sample_app w (sample_ctx ''access-audit:write'' sample_envelope)"

definition sample_seal :: string where
  "sample_seal = (case Seal sample_codec sample_sealer (Some sample_envelope) of Inl e \<Rightarrow> [] | Inr h \<Rightarrow> h)"

definition sample_record :: "(string, string) access_record" where
  "sample_record = \<lparr>RowID = ''01J'', Envelope = sample_envelope, RowSeal = sample_seal, Seq = 1,
     SourceService = ''svc:test-client'', System = ''default''\<rparr>"

definition sample_after :: "((string, string) Memory, string, string) backend sys" where
  "sample_after = snd (sample_post sample_world (bt_sys sample_booted))"

lemma sample_Seal: "Seal sample_codec sample_sealer (Some sample_envelope) = Inr sample_seal"
  by (rule Seal_ok [OF sample_envelope_ok(4), of sample_sealer]) (simp add: sample_seal_def)

lemma sample_Sanitize: "Sanitize (\<lambda>c. c) sample_envelope = sample_envelope"
  by (simp add: Sanitize_def sample_envelope_def sample_keys runes_ascii maxAttrValueLen_def Let_def)

lemma sample_app_simps [simp]:
  "app_sealer sample_app = sample_sealer" "app_framework sample_app = sample_framework"
  "Config sample_app = Some (sample_config [])" "authMW sample_app = TestAuthMiddleware sample_user"
  "app_store sample_app = store_iface (postgres_store ref_pg)" "app_events sample_app = NewEmitter (\<lambda>org ev. None)"
  "rc_Window (app_task sample_app) = 365 * 24 * hour_ns" "cfg_System (sample_config []) = ''default''"
  by (simp_all add: sample_booted_def sample_services_def) (simp_all add: sample_config_def)

lemma sample_framework_simps [simp]:
  "fw_codec sample_framework = sample_codec" "CategoryGDPRAccess sample_framework = ''gdpr_access''"
  "lower_table sample_framework = (\<lambda>c. c)"
  by (simp_all add: sample_framework_def)

lemma sample_auth:
  "scopes \<noteq> [] \<Longrightarrow> TestAuthMiddleware sample_user (sample_ctx scopes sample_envelope) = Inr (sample_caller scopes)"
  by (simp add: TestAuthMiddleware_def sample_ctx_def sample_caller_def Let_def)

lemma sample_caller_simps [simp]:
  "User (sample_caller scopes) = sample_user ''svc:test-client'' scopes"
  "BodyAccessRecord (sample_caller scopes) = Inr sample_envelope" "Params (sample_caller scopes) p = ''usr_1''"
  "QueryString (sample_caller scopes) q = None" "QueryInt (sample_caller scopes) q = Inr None"
  "BodyLegalHold (sample_caller scopes) = Inr \<lparr>Subject = ''usr_1'', Reason = []\<rparr>" "Path (sample_caller scopes) = ''/v1''"
  by (simp_all add: sample_caller_def sample_ctx_def)

lemma sample_user_simps [simp]: "user_ID (sample_user sub scopes) = sub"
  "HasScopeLevel (sample_user sub scopes) g l \<longleftrightarrow> scopes = g @ '':'' @ l"
  by (simp_all add: sample_user_def)

lemma recordAccess_sample:
  assumes "app_sealer a = sample_sealer" and "app_framework a = sample_framework" and "Config a = Some cfg"
    and "cfg_System cfg = ''default''"
  shows "recordAccess a sample_world (sample_caller ''access-audit:write'') y =
    (case on_store (Append (app_store a) sample_world (sample_record\<lparr>RowID := [], Seq := 0\<rparr>)) y of
       (Inl err, y) \<Rightarrow> (Failed err, y)
     | (Inr res, y) \<Rightarrow>
         (Reply (if \<not> Duplicate res then StatusCreated else StatusOK)
            (RecordedBody \<lparr>rp_RecordID = RecordID res, rp_EventID = ResEventID res, rp_Duplicate = Duplicate res\<rparr>), y))"
  by (simp add: recordAccess_def requireScope_def Body_AccessRecord_def sample_valid sample_Sanitize sample_Seal
      sample_record_def assms)

lemmas sample_handler =
  recordAccess_sample [OF sample_app_simps(1-3) sample_app_simps(8), unfolded sample_app_simps(5)]

lemma sample_after_eq: "sample_after = (bt_sys sample_booted)
    \<lparr>st := InMemory \<lparr>byEventID = [''ev-1'' \<mapsto> sample_record], records = [sample_record], checkpoints = Map.empty,
      holds = Map.empty, verifyEvents = []\<rparr>\<rparr>"
  unfolding sample_after_def sample_post_def
  by (simp add: serve_def v1_def sample_auth sample_handler on_store_def dispatch_store_def)
    (simp add: sample_booted_def mem_Append_def NewMemory_def Let_def sample_record_def sample_world_def
      sample_envelope_def)

lemma sample_window: "now sample_world - 365 * 24 * hour_ns = Date 2023 12 4"
  by (simp add: sample_world_def Date_def days_of_civil_def days_before_year_def days_before_month_def is_leap_def
      day_ns_def second_def hour_ns_def)

lemma DateOf_cutoff [simp]: "DateOf (Date 2023 12 4) = (2023, 12, 4)"
  by (intro DateOf_Date) (simp_all add: days_in_def days_before_month_def is_leap_def)

lemma Period_cutoff: "Period (now sample_world - 365 * 24 * hour_ns) = ''2023-12-01''"
  unfolding sample_window
  by (simp add: Period_eq format_date_def appendInt_def pad_def decimal_1 decimal_2 decimal_4 digit_chars)

lemma sample_boots: "boots_on_memory (sample_services []) (sample_config []) sample_booted"
  by (simp add: boots_on_memory_def sample_boot sample_services_simps) (simp add: sample_config_def)

lemma sample_reachable: "reachable sample_app (bt_sys sample_booted) sample_after"
proof -
  have "step sample_app (now sample_world) (bt_sys sample_booted) sample_after"
    unfolding sample_after_def sample_post_def
    by (rule step.request [of _ _ _ _ _ "fst (sample_post sample_world (bt_sys sample_booted))"])
      (auto simp: Init_def sample_post_def)
  then show ?thesis using reachable.boot reachable.next_step by metis
qed

end
