(* ===== verification/Production.thy ===== *)
theory Production
  imports Service
begin

text \<open>
  The service on PostgreSQL, its production configuration. A request is \<open>representable\<close> when JSON
  carries its texts, times and numbers unchanged; \<open>carried\<close> are the steps of a service under such
  requests and its sweeps. On these steps the container behaves as one whose store is the
  restricted store of \<open>Procedures\<close>, which meets \<open>store_contract\<close>, so the invariants of
  \<open>wired\<close> hold for the production service over documented procedures.
\<close>

section \<open>Requests that JSON carries\<close>

definition event_representable :: "world \<Rightarrow> verifyEventRequest \<Rightarrow> bool" where
  "event_representable w r \<longleftrightarrow>
     list_all valid_utf8 [req_IP r, req_UserAgent r, req_SHA256 r, req_Verdict r, req_CorrelationID r, req_SessionID r] \<and>
     in_int64 (req_SizeBytes r) \<and>
     (case (if req_TS r \<noteq> [] then parse_rfc3339 (req_TS r) else Some (now w)) of None \<Rightarrow> True | Some t \<Rightarrow> common_era t)"

definition representable ::
    "(('a, 'r) envelope \<Rightarrow> bool) \<Rightarrow> ('a, 'r) framework \<Rightarrow> world \<Rightarrow> ('a, 'r) ctx \<Rightarrow> bool" where
  "representable storable fw w ctx \<longleftrightarrow>
     valid_utf8 (user_ID (User ctx)) \<and> valid_utf8 (Params ctx ''subject'') \<and>
     (case QueryString ctx ''subject'' of None \<Rightarrow> True | Some s \<Rightarrow> valid_utf8 s) \<and>
     (case timeRange ctx of Inl err \<Rightarrow> True | Inr (t0, t1) \<Rightarrow> dated t0 \<and> dated t1) \<and>
     (case QueryInt ctx ''limit'' of Inr (Some l) \<Rightarrow> in_int64 l | _ \<Rightarrow> True) \<and>
     (case Body_AccessRecord fw ctx of Inl err \<Rightarrow> True | Inr e \<Rightarrow> storable (Sanitize (lower_table fw) e)) \<and>
     (case Body_LegalHold fw ctx of Inl err \<Rightarrow> True | Inr r \<Rightarrow> valid_utf8 (Subject r) \<and> valid_utf8 (Reason r)) \<and>
     (case BodyVerifyEvent ctx of Inl err \<Rightarrow> True | Inr r \<Rightarrow> event_representable w r)"

text \<open>A request on a route behind the middleware is judged as the middleware passes it on.\<close>

definition carried_request ::
    "(('a, 'r) envelope \<Rightarrow> bool) \<Rightarrow> ('s, 'a, 'r) App \<Rightarrow> ('s, 'a, 'r) route \<Rightarrow> world \<Rightarrow> ('a, 'r) ctx \<Rightarrow> bool" where
  "carried_request storable a rt w ctx \<longleftrightarrow>
     (if route_authenticated rt
      then (case authMW a ctx of Inl reply \<Rightarrow> True | Inr ctx' \<Rightarrow> representable storable (app_framework a) w ctx')
      else True)"

inductive carried ::
    "(('a, 'r) envelope \<Rightarrow> bool) \<Rightarrow> ('s, 'a, 'r) App \<Rightarrow> time \<Rightarrow> 's sys \<Rightarrow> 's sys \<Rightarrow> bool" for storable a where
  request: "rt \<in> set Init \<Longrightarrow> carried_request storable a rt w ctx \<Longrightarrow> serve rt a w ctx y = (res, y') \<Longrightarrow>
    carried storable a (now w) y y'"
| sweep: "carried storable a (now (clk 0)) y (runOnce (app_task a) clk y)"

inductive carried_reachable ::
    "(('a, 'r) envelope \<Rightarrow> bool) \<Rightarrow> ('s, 'a, 'r) App \<Rightarrow> 's sys \<Rightarrow> 's sys \<Rightarrow> bool" for storable a y0 where
  boot: "carried_reachable storable a y0 y0"
| next_step: "carried_reachable storable a y0 y \<Longrightarrow> carried storable a t y y' \<Longrightarrow> carried_reachable storable a y0 y'"

section \<open>The container over the restricted store\<close>

definition restricted :: "(('a, 'r) envelope \<Rightarrow> bool) \<Rightarrow> ('p, 'a, 'r) pgx \<Rightarrow> (('p, 'a, 'r) backend, 'a, 'r) Store" where
  "restricted c pg = store_iface (checked c (postgres_store pg))"

definition checked_app ::
    "(('a, 'r) envelope \<Rightarrow> bool) \<Rightarrow> ('p, 'a, 'r) pgx \<Rightarrow> (('p, 'a, 'r) backend, 'a, 'r) App \<Rightarrow> (('p, 'a, 'r) backend, 'a, 'r) App" where
  "checked_app c pg a = a\<lparr>app_store := restricted c pg, app_task := (app_task a)\<lparr>rc_Store := restricted c pg\<rparr>\<rparr>"

lemma checked_app_simps [simp]:
  "app_store (checked_app c pg a) = restricted c pg" "app_task (checked_app c pg a) = (app_task a)\<lparr>rc_Store := restricted c pg\<rparr>"
  "app_sealer (checked_app c pg a) = app_sealer a" "app_framework (checked_app c pg a) = app_framework a"
  "app_events (checked_app c pg a) = app_events a" "authMW (checked_app c pg a) = authMW a"
  "Config (checked_app c pg a) = Config a" "requireScope (checked_app c pg a) = requireScope a"
  "check_records (checked_app c pg a) = check_records a" "mismatches (checked_app c pg a) = mismatches a"
  "sound_log (checked_app c pg a) = sound_log a"
proof -
  show "check_records (checked_app c pg a) = check_records a"
  proof (intro ext)
    fix subject rs y
    show "check_records (checked_app c pg a) subject rs y = check_records a subject rs y"
      by (induction rs arbitrary: y) (simp_all add: checked_app_def Let_def)
  qed
  show "mismatches (checked_app c pg a) = mismatches a"
    by (intro ext, induct_tac x) (simp_all add: checked_app_def)
qed (simp_all add: checked_app_def Config_def requireScope_def sound_log_def sound_entry_def fun_eq_iff
    split: option.split)

lemma guarded_True [simp]: "ok \<Longrightarrow> guarded ok f = f"
  by (simp add: guarded_def fun_eq_iff)

lemma valid_hex: "list_all is_hex h \<Longrightarrow> valid_utf8 h"
  by (intro valid_ascii) (auto simp: list_all_iff is_hex_def is_digit_def)

lemma Seal_valid: "Seal c s e = Inr h \<Longrightarrow> valid_utf8 h"
  using Seal_hex valid_hex by blast

lemma valid_format_date: "valid_utf8 (format_date ymd)"
proof -
  have "ascii (format_date ymd)" by (cases ymd) (simp add: format_date_def appendInt_def)
  then show ?thesis by (intro valid_ascii) (simp add: ascii_def)
qed

lemma valid_Period [simp]: "valid_utf8 (Period t)"
  by (simp add: Period_eq valid_format_date)

lemma restricted_ops:
  "storable (Envelope r) \<Longrightarrow> list_all valid_utf8 [RowSeal r, SourceService r, System r] \<Longrightarrow>
    Append (restricted storable pg) w r = Append (store_iface (postgres_store pg)) w r"
  "valid_utf8 s \<Longrightarrow> dated t0 \<Longrightarrow> dated t1 \<Longrightarrow> in_int64 l \<Longrightarrow>
    BySubject (restricted storable pg) s t0 t1 l = BySubject (store_iface (postgres_store pg)) s t0 t1 l"
  "valid_utf8 p \<Longrightarrow> SealsForPeriod (restricted storable pg) p = SealsForPeriod (store_iface (postgres_store pg)) p"
  "valid_utf8 p \<Longrightarrow>
    PendingCheckpointPeriods (restricted storable pg) p = PendingCheckpointPeriods (store_iface (postgres_store pg)) p"
  "valid_utf8 (CpPeriod cp) \<Longrightarrow> valid_utf8 (CpSeal cp) \<Longrightarrow> in_int64 (RowCount cp) \<Longrightarrow>
    SaveCheckpoint (restricted storable pg) w cp = SaveCheckpoint (store_iface (postgres_store pg)) w cp"
  "valid_utf8 p \<Longrightarrow> LoadCheckpoint (restricted storable pg) p = LoadCheckpoint (store_iface (postgres_store pg)) p"
  "list_all valid_utf8 [s, reason, b] \<Longrightarrow>
    SetLegalHold (restricted storable pg) s reason b h = SetLegalHold (store_iface (postgres_store pg)) s reason b h"
  "valid_utf8 p \<Longrightarrow> PurgeExpired (restricted storable pg) p = PurgeExpired (store_iface (postgres_store pg)) p"
  "evidence_ok ev \<Longrightarrow>
    AppendVerifyEvent (restricted storable pg) w ev = AppendVerifyEvent (store_iface (postgres_store pg)) w ev"
  "in_int64 n \<Longrightarrow> SweepVerifyExpired (restricted storable pg) w n = SweepVerifyExpired (store_iface (postgres_store pg)) w n"
  "Ping (restricted storable pg) = Ping (store_iface (postgres_store pg))"
  by (simp_all add: restricted_def) (simp_all add: postgres_store_def)

section \<open>Requests\<close>

lemma recordAccess_checked:
  assumes "app_store a = store_iface (postgres_store pg)" and "representable storable (app_framework a) w ctx"
    and "\<forall>cfg. Config a = Some cfg \<longrightarrow> valid_utf8 (cfg_System cfg)"
  shows "recordAccess (checked_app storable pg a) w ctx y = recordAccess a w ctx y"
  using assms(2,3) unfolding recordAccess_def checked_app_simps assms(1)
  by (auto simp: restricted_ops Let_def representable_def split: option.split sum.split dest!: Seal_valid)

lemma subjectRecords_checked:
  assumes "app_store a = store_iface (postgres_store pg)" and "representable storable (app_framework a) w ctx"
  shows "subjectRecords (checked_app storable pg a) w ctx y = subjectRecords a w ctx y"
  using assms(2) unfolding subjectRecords_def checked_app_simps assms(1)
  by (auto simp: restricted_ops Let_def representable_def in_int64_def split: option.split sum.split)

lemma normalizePeriod_valid: "normalizePeriod s = Some p \<Longrightarrow> valid_utf8 p"
  by (auto simp: normalizePeriod_def Let_def valid_format_date split: option.splits prod.splits)

lemma verify_checked:
  assumes "app_store a = store_iface (postgres_store pg)" and "representable storable (app_framework a) w ctx"
  shows "verify (checked_app storable pg a) w ctx y = verify a w ctx y"
proof -
  have "verifySubject (checked_app storable pg a) s y = verifySubject a s y" if "valid_utf8 s" for s
    using that unfolding verifySubject_def checked_app_simps assms(1)
    by (simp add: restricted_ops dated_def IsZero_def in_int64_def)
  moreover have "verifyPeriod (checked_app storable pg a) q y = verifyPeriod a q y" for q
  proof (cases "normalizePeriod q")
    case (Some p)
    note v = normalizePeriod_valid [OF Some]
    show ?thesis
      unfolding verifyPeriod_def checked_app_simps assms(1) Some option.case restricted_ops(3,6) [OF v] ..
  qed (simp add: verifyPeriod_def)
  ultimately show ?thesis
    using assms(2) by (auto simp: verify_def representable_def query_value_def split: option.split)
qed

lemma recordVerifyEvent_checked:
  assumes "app_store a = store_iface (postgres_store pg)" and "representable storable (app_framework a) w ctx"
  shows "recordVerifyEvent (checked_app storable pg a) w ctx y = recordVerifyEvent a w ctx y"
proof (cases "BodyVerifyEvent ctx")
  case (Inr r)
  with assms(2) have "event_representable w r" "valid_utf8 (user_ID (User ctx))" by (simp_all add: representable_def)
  with Inr show ?thesis unfolding recordVerifyEvent_def checked_app_simps assms(1)
    by (auto simp: restricted_ops event_representable_def evidence_ok_def simp del: store_iface_ops split: option.split)
qed (simp add: recordVerifyEvent_def)

lemma placeLegalHold_checked:
  assumes "app_store a = store_iface (postgres_store pg)" and "representable storable (app_framework a) w ctx"
  shows "placeLegalHold (checked_app storable pg a) w ctx y = placeLegalHold a w ctx y"
  using assms(2) unfolding placeLegalHold_def checked_app_simps assms(1)
  by (auto simp: restricted_ops representable_def split: option.split sum.split)

lemma clearLegalHold_checked:
  assumes "app_store a = store_iface (postgres_store pg)" and "representable storable (app_framework a) w ctx"
  shows "clearLegalHold (checked_app storable pg a) w ctx y = clearLegalHold a w ctx y"
  using assms(2) unfolding clearLegalHold_def checked_app_simps assms(1)
  by (auto simp: restricted_ops Let_def representable_def valid_ascii split: option.split)

lemma purge_checked:
  assumes "app_store a = store_iface (postgres_store pg)"
  shows "purge (checked_app storable pg a) w ctx y = purge a w ctx y"
  unfolding purge_def checked_app_simps assms by (simp add: restricted_ops Let_def split: option.split)

lemma health_checked:
  assumes "app_store a = store_iface (postgres_store pg)"
  shows "healthz (checked_app storable pg a) w ctx y = healthz a w ctx y"
    "readyz (checked_app storable pg a) w ctx y = readyz a w ctx y"
  by (simp_all add: healthz_def readyz_def restricted_ops assms)

lemmas handlers_checked = recordAccess_checked subjectRecords_checked verify_checked recordVerifyEvent_checked
  placeLegalHold_checked clearLegalHold_checked purge_checked health_checked

lemma serve_checked:
  assumes "app_store a = store_iface (postgres_store pg)" and "carried_request storable a rt w ctx"
    and "\<forall>cfg. Config a = Some cfg \<longrightarrow> valid_utf8 (cfg_System cfg)" and "rt \<in> set Init"
  shows "serve rt (checked_app storable pg a) w ctx y = serve rt a w ctx y"
proof -
  have "route_handler rt (checked_app storable pg a) w ctx' y = route_handler rt a w ctx' y"
    if "representable storable (app_framework a) w ctx' \<or> \<not> route_authenticated rt" for ctx'
    using assms(4) that handlers_checked [OF assms(1)] assms(3) by (auto simp: Init_def v1_def)
  with assms(2) show ?thesis by (auto simp: serve_def carried_request_def split: sum.split)
qed

section \<open>Sweeps\<close>

lemma decode_int64_range:
  assumes "decode_all decode_int64 vs x = Some n" and "in_int64 x"
  shows "in_int64 n"
  using assms
proof (induction vs arbitrary: x)
  case (Cons v vs)
  then obtain m where m: "decode_int64 v x = Some m" "decode_all decode_int64 vs m = Some n"
    by (auto simp: bind_eq_Some_conv)
  have "in_int64 m"
    using m(1) Cons.prems(2)
    by (auto simp: decode_int64_def parse_int64_def in_int64_def Let_def split: wire.splits prod.splits if_splits)
  with Cons.IH m(2) show ?case by blast
qed simp

lemma pg_seals_count:
  assumes "pg_SealsForPeriod pg p s = (Inr (ss, n), s')"
  shows "in_int64 n"
proof -
  have "in_int64 0" by (simp add: in_int64_def)
  with assms show ?thesis
    by (auto simp: pg_SealsForPeriod_def with_data_Inr decoded_def unmarshal_raw_def decode_struct_def seals_fields_def
        decode_field_def bind_eq_Some_conv split: option.splits wire.splits dest: decode_int64_range)
qed

lemma log_line_store: "log_line (rc\<lparr>rc_Store := S\<rparr>) = log_line rc"
  by (simp add: fun_eq_iff log_line_def)

text \<open>How \<^verbatim>\<open>init\<close> wires the container, with a configuration JSON carries.\<close>

definition wired_on_postgres :: "('p, 'a, 'r) pgx \<Rightarrow> (('p, 'a, 'r) backend, 'a, 'r) App \<Rightarrow> bool" where
  "wired_on_postgres pg a \<longleftrightarrow>
     app_store a = store_iface (postgres_store pg) \<and> rc_Store (app_task a) = store_iface (postgres_store pg) \<and>
     rc_Sealer (app_task a) = app_sealer a \<and> in_int64 (rc_VerifyRetentionDays (app_task a)) \<and>
     (\<forall>cfg. Config a = Some cfg \<longrightarrow> RetentionWindow cfg = rc_Window (app_task a) \<and> valid_utf8 (cfg_System cfg))"

context procedures
begin

abbreviation on_postgres :: "('p, 'a, 'r) backend \<Rightarrow> bool" where
  "on_postgres \<equiv> backend_inv (\<lambda>m. False) inv"

lemma restricted_contract: "store_contract (restricted storable pg) on_postgres (backend_abs abs)"
  unfolding restricted_def by (rule store_iface_contract [OF unused_contract contract])

lemma on_postgres_cases:
  assumes "on_postgres s"
  obtains p where "s = OnPostgres p" "inv p"
  using assms by (cases s) auto

lemma seals_count:
  assumes "on_postgres (st y)" and "on_store (SealsForPeriod (store_iface (postgres_store pg)) p) y = (Inr (ss, n), y')"
  shows "in_int64 n"
proof -
  obtain s where "st y = OnPostgres s" using assms(1) by (elim on_postgres_cases)
  with assms(2) show ?thesis
    by (auto simp: on_store_def dispatch_store_def postgres_store_def split: prod.splits dest: pg_seals_count)
qed

lemma checkpoint_period_checked:
  assumes "rc_Store rc = store_iface (postgres_store pg)" and "on_postgres (st y)" and "valid_utf8 p"
  shows "checkpoint_period (rc\<lparr>rc_Store := restricted storable pg\<rparr>) w p y = checkpoint_period rc w p y"
proof -
  have v: "valid_utf8 (Checkpoint (rc_Sealer rc) ss n)" for ss n
    using Checkpoint_hex valid_hex by blast
  show ?thesis
  proof (cases "on_store (SealsForPeriod (store_iface (postgres_store pg)) p) y")
    case (Pair res y1)
    then show ?thesis
      using seals_count [OF assms(2), of p] v assms(3)
      unfolding checkpoint_period_def assms(1)
      by (cases res) (auto simp: restricted_ops simp del: store_iface_ops split: prod.split sum.split)
  qed
qed

lemma checkpoint_all_checked:
  assumes "rc_Store rc = store_iface (postgres_store pg)" and "on_postgres (st y)" and "list_all valid_utf8 ps"
  shows "checkpoint_all (rc\<lparr>rc_Store := restricted storable pg\<rparr>) clk i ps y = checkpoint_all rc clk i ps y"
  using assms(2,3)
proof (induction ps arbitrary: i y)
  case (Cons p ps)
  let ?rc = "rc\<lparr>rc_Store := restricted storable pg\<rparr>"
  obtain res y1 where c: "checkpoint_period rc (clk i) p y = (res, y1)" by fastforce
  have c': "checkpoint_period ?rc (clk i) p y = (res, y1)"
    using checkpoint_period_checked [OF assms(1) Cons.prems(1)] Cons.prems(2) c by simp
  have "on_postgres (st y1)"
    using store_contract.checkpoint_period_effect [OF restricted_contract Cons.prems(1) _ c'] by simp
  with Cons.IH Cons.prems(2) c c' show ?case by (auto simp: log_line_def split: option.split)
qed simp

lemma seal_pending_checked:
  assumes "rc_Store rc = store_iface (postgres_store pg)" and "on_postgres (st y)"
  shows "seal_pending (rc\<lparr>rc_Store := restricted storable pg\<rparr>) clk y = seal_pending rc clk y"
proof (cases "on_store (PendingCheckpointPeriods (restricted storable pg) (Period (now (clk 0)))) y")
  case (Pair res y1)
  then obtain s where s: "PendingCheckpointPeriods (restricted storable pg) (Period (now (clk 0))) (st y) = (res, s)"
    "y1 = y\<lparr>st := s\<rparr>" by (elim on_store_cases)
  note law = store_contract.pending_law [OF restricted_contract assms(2) s(1)]
  have "on_store (PendingCheckpointPeriods (store_iface (postgres_store pg)) (Period (now (clk 0)))) y = (res, y1)"
    using Pair by (simp add: restricted_ops)
  moreover have "list_all valid_utf8 ps" if "res = Inr ps" for ps
  proof -
    have "set ps = spec_pending (Period (now (clk 0))) (backend_abs abs (st y))" using law that by blast
    then show ?thesis by (auto simp: list_all_iff spec_pending_def period_keys_def)
  qed
  moreover have "on_postgres (st y1)" using law s(2) by simp
  ultimately show ?thesis
    using Pair assms(1) by (cases res) (simp_all add: seal_pending_def checkpoint_all_checked log_line_def del: store_iface_ops)
qed

lemma runOnce_checked:
  assumes "rc_Store rc = store_iface (postgres_store pg)" and "on_postgres (st y)" and "in_int64 (rc_VerifyRetentionDays rc)"
  shows "runOnce (rc\<lparr>rc_Store := restricted storable pg\<rparr>) clk y = runOnce rc clk y"
proof -
  let ?rc = "rc\<lparr>rc_Store := restricted storable pg\<rparr>"
  have rc: "rc_Store ?rc = restricted storable pg" "rc_Window ?rc = rc_Window rc" "rc_Events ?rc = rc_Events rc"
    "rc_VerifyRetentionDays ?rc = rc_VerifyRetentionDays rc" by simp_all
  have sw: "sweep_evidence ?rc clk = sweep_evidence rc clk"
    unfolding sweep_evidence_def [abs_def] rc log_line_store assms(1) restricted_ops(10) [OF assms(3)] ..
  show ?thesis
    unfolding runOnce_def rc log_line_store assms(1) seal_pending_checked [OF assms(1,2)] Let_def
      restricted_ops(8) [OF valid_Period] sw ..
qed

lemma wired_checked:
  "wired_on_postgres pg a \<Longrightarrow> wired (restricted storable pg) on_postgres (backend_abs abs) (checked_app storable pg a)"
  by (intro wired.intro wired_axioms.intro restricted_contract) (simp_all add: wired_on_postgres_def)

lemma carried_step:
  assumes "wired_on_postgres pg a" and "on_postgres (st y)" and "carried storable a t y y'"
  shows "step (checked_app storable pg a) t y y'"
  using assms(3)
proof (cases rule: carried.cases)
  case (request rt w ctx res)
  have "serve rt (checked_app storable pg a) w ctx y = (res, y')"
    using assms(1) request serve_checked [of a pg storable rt w ctx y] by (simp add: wired_on_postgres_def)
  with request(2) show ?thesis unfolding request(1) by (rule step.request)
next
  case (sweep clk)
  have "y' = runOnce (app_task (checked_app storable pg a)) clk y"
    using sweep assms(1,2) runOnce_checked [of "app_task a" y clk] by (simp add: wired_on_postgres_def)
  then show ?thesis unfolding sweep(1) by (simp only: step.sweep)
qed

lemma carried_reachable_inv:
  assumes "wired_on_postgres pg a" and "carried_reachable storable a y0 y" and "on_postgres (st y0)"
    and "sound_log a (backend_abs abs (st y0))"
  shows "on_postgres (st y) \<and> sound_log a (backend_abs abs (st y))"
  using assms(2)
proof (induction rule: carried_reachable.induct)
  case (next_step y t y')
  note s = carried_step [OF assms(1) conjunct1 [OF next_step.IH] next_step.hyps(2)]
  show ?case
    using wired.step_inv [OF wired_checked [OF assms(1)] s] wired.step_sound [OF wired_checked [OF assms(1)] s] next_step.IH
    by simp
qed (use assms(3,4) in simp)

end

section \<open>Booting on PostgreSQL\<close>

definition boots_on_postgres ::
    "('p, 'a, 'r) services \<Rightarrow> Configuration \<Rightarrow> ('p, 'a, 'r) booted \<Rightarrow> 'p \<Rightarrow> bool" where
  "boots_on_postgres sv cfg b p \<longleftrightarrow>
     server_New sv = Inr cfg \<and> app_New sv = Inr b \<and> st (bt_sys b) = OnPostgres p \<and>
     valid_utf8 (cfg_System cfg) \<and> in_int64 (VerifyRetentionDays cfg)"

lemma boots_on_postgres_cases:
  assumes "boots_on_postgres sv cfg b p"
  obtains sealer mw where "bt_app b = container sv cfg sealer mw" "wired_on_postgres (sv_pgx sv) (bt_app b)"
proof -
  have "app_init sv cfg = Inr b" using assms by (auto simp: boots_on_postgres_def app_New_def)
  then obtain sealer mw where c: "bt_app b = container sv cfg sealer mw" by (elim app_init_cases)
  moreover have "wired_on_postgres (sv_pgx sv) (bt_app b)"
    using assms by (simp add: c wired_on_postgres_def boots_on_postgres_def)
  ultimately show ?thesis by (rule that)
qed

section \<open>A concrete run\<close>

text \<open>The sample service on the reference database, before and after one accepted record.\<close>

definition pg_booted :: "((string, string) Memory, string, string) booted" where
  "pg_booted =
     \<lparr>bt_app = container (sample_services ''pg'') (sample_config ''pg'') sample_sealer (TestAuthMiddleware sample_user),
      bt_sys = \<lparr>st = OnPostgres NewMemory, tel = \<lparr>emitted = [], emit_failures = []\<rparr>, logs = []\<rparr>\<rparr>"

abbreviation pg_app :: "(((string, string) Memory, string, string) backend, string, string) App" where
  "pg_app \<equiv> bt_app pg_booted"

definition pg_after :: "((string, string) Memory, string, string) backend sys" where
  "pg_after = (bt_sys pg_booted)
     \<lparr>st := OnPostgres (snd (mem_Append sample_world (sample_record\<lparr>RowID := [], Seq := 0\<rparr>) NewMemory))\<rparr>"

lemma pg_boots: "boots_on_postgres (sample_services ''pg'') (sample_config ''pg'') pg_booted NewMemory"
proof -
  have "app_New (sample_services ''pg'') = Inr pg_booted"
    unfolding app_New_def app_init_def
    by (simp add: sample_services_simps New_sample sample_open_pg) (simp add: pg_booted_def)
  then show ?thesis
    by (simp add: boots_on_postgres_def sample_services_simps)
      (simp add: pg_booted_def sample_config_def valid_ascii in_int64_def)
qed

lemma pg_app_simps [simp]:
  "app_sealer pg_app = sample_sealer" "app_framework pg_app = sample_framework"
  "Config pg_app = Some (sample_config ''pg'')" "cfg_System (sample_config ''pg'') = ''default''"
  "authMW pg_app = TestAuthMiddleware sample_user" "app_store pg_app = store_iface (postgres_store ref_pg)"
  by (simp_all add: pg_booted_def sample_services_def) (simp_all add: sample_config_def)

lemma pg_append:
  "Append (store_iface (postgres_store ref_pg)) sample_world (sample_record\<lparr>RowID := [], Seq := 0\<rparr>) (OnPostgres NewMemory) =
   (Inr \<lparr>RecordID = ''01J'', ResEventID = ''ev-1'', Duplicate = False\<rparr>, st pg_after)"
proof -
  have v: "valid_utf8 sample_seal" using Seal_valid [OF sample_Seal] .
  have "pg_Append ref_pg sample_world (sample_record\<lparr>RowID := [], Seq := 0\<rparr>) NewMemory =
      mem_Append sample_world (sample_record\<lparr>RowID := [], Seq := 0\<rparr>) NewMemory"
    using ref_storable_sample v
    by (intro append_on_reference) (simp_all add: NewMemory_def sample_record_def sample_world_def valid_ascii)
  then show ?thesis
    by (simp add: dispatch_store_def postgres_store_def pg_after_def)
      (simp add: mem_Append_def NewMemory_def Let_def sample_record_def sample_envelope_def sample_world_def)
qed

lemma pg_post:
  "serve (v1 POST ''/access-records'' recordAccess) pg_app sample_world (sample_ctx ''access-audit:write'' sample_envelope) (bt_sys pg_booted) =
   (Reply StatusCreated (RecordedBody \<lparr>rp_RecordID = ''01J'', rp_EventID = ''ev-1'', rp_Duplicate = False\<rparr>), pg_after)"
proof -
  have "st (bt_sys pg_booted) = OnPostgres NewMemory" by (simp add: pg_booted_def)
  then show ?thesis
    by (simp add: serve_def v1_def sample_auth recordAccess_sample [OF pg_app_simps(1-4)] on_store_def pg_append
        del: store_iface_ops) (simp add: pg_after_def)
qed

lemma pg_representable: "representable ref_storable sample_framework sample_world (sample_caller ''access-audit:write'')"
proof -
  have "BodyVerifyEvent (sample_caller scopes) = Inl (ExternalError ''body'')" for scopes
    by (simp add: sample_caller_def sample_ctx_def)
  then show ?thesis
    by (simp add: representable_def Body_AccessRecord_def Body_LegalHold_def sample_valid sample_Sanitize ref_storable_sample
        timeRange_def time_param_def query_value_def dated_def IsZero_def valid_ascii split: sum.split option.split)
qed

lemma pg_carried: "carried ref_storable pg_app (now sample_world) (bt_sys pg_booted) pg_after"
  using pg_post by (intro carried.request) (auto simp: Init_def carried_request_def sample_auth v1_def pg_representable)

lemma pg_procedures: "procedures (sv_pgx (sample_services ''pg'')) mem_inv mem_abs ref_storable"
  by (simp add: sample_services_simps ref.procedures_axioms)

lemma pg_after_st:
  obtains m where "st pg_after = OnPostgres m" "mem_inv m" "log (mem_abs m) ''ev-1'' = Some (entry_of sample_record)"
proof (rule that [OF _ _])
  let ?m = "snd (mem_Append sample_world (sample_record\<lparr>RowID := [], Seq := 0\<rparr>) NewMemory)"
  show "st pg_after = OnPostgres ?m" by (simp add: pg_after_def)
  show "mem_inv ?m" by (intro mem_Append_inv mem_inv_NewMemory)
  show "log (mem_abs ?m) ''ev-1'' = Some (entry_of sample_record)"
    by (simp add: mem_Append_def NewMemory_def Let_def sample_record_def sample_envelope_def entry_of_def)
qed

section \<open>Properties\<close>

text \<open>In production, over procedures that behave as documented and a database whose stored
  records are sound, every reachable state of the service keeps them sound: under any sequence of
  requests that JSON carries unchanged and of sweeps, every record in the database verifies under
  its seal, satisfies the validation and is sanitised.\<close>

theorem postgres_records_sound:
  assumes "procedures (sv_pgx sv) I A storable" and "boots_on_postgres sv cfg b p0" and "I p0"
    and "sound_log (bt_app b) (A p0)" and "carried_reachable storable (bt_app b) (bt_sys b) y"
  shows "\<exists>p. st y = OnPostgres p \<and> I p \<and>
    (\<forall>k e. log (A p) k = Some e \<longrightarrow>
       Verify (fw_codec (sv_framework sv)) (app_sealer (bt_app b)) (Some (en_Envelope e)) (en_Seal e) \<and>
       Validate (CategoryGDPRAccess (sv_framework sv)) (en_Envelope e) = None \<and>
       Sanitize (lower_table (sv_framework sv)) (en_Envelope e) = en_Envelope e)"
proof -
  obtain sealer mw where c: "bt_app b = container sv cfg sealer mw" "wired_on_postgres (sv_pgx sv) (bt_app b)"
    using boots_on_postgres_cases [OF assms(2)] .
  have s0: "st (bt_sys b) = OnPostgres p0" using assms(2) by (simp add: boots_on_postgres_def)
  note inv = procedures.carried_reachable_inv [OF assms(1) c(2) assms(5)]
  have "backend_inv (\<lambda>m. False) I (st y)" "sound_log (bt_app b) (backend_abs A (st y))"
    using inv assms(3,4) by (simp_all add: s0)
  then obtain p where p: "st y = OnPostgres p" "I p" "sound_log (bt_app b) (A p)" by (cases "st y") auto
  then have "sound_entry (bt_app b) e" if "log (A p) k = Some e" for k e
    using that by (auto simp: sound_log_def ran_def)
  with p(1,2) show ?thesis by (simp add: sound_entry_def c(1))
qed

theorem postgres_records_sound_witness:
  "\<exists>p. st pg_after = OnPostgres p \<and> log (mem_abs p) ''ev-1'' = Some (entry_of sample_record) \<and>
     Verify sample_codec sample_sealer (Some sample_envelope) sample_seal"
proof -
  have l: "sound_log pg_app (mem_abs NewMemory)" by (simp add: sound_log_def ran_def NewMemory_def)
  have r: "carried_reachable ref_storable pg_app (bt_sys pg_booted) pg_after"
    using carried_reachable.boot pg_carried by (rule carried_reachable.next_step)
  obtain m where m: "st pg_after = OnPostgres m" "log (mem_abs m) ''ev-1'' = Some (entry_of sample_record)"
    by (rule pg_after_st)
  have "Verify sample_codec sample_sealer (Some (Envelope sample_record)) (RowSeal sample_record)"
    using postgres_records_sound [where I = mem_inv and A = mem_abs, OF pg_procedures pg_boots mem_inv_NewMemory l r] m
    by (fastforce simp: sample_services_simps simp del: mem_abs_simps)
  with m show ?thesis by (simp add: sample_record_def)
qed

text \<open>In production the log is append-only: over procedures that behave as documented, a request
  that JSON carries unchanged or a sweep keeps every stored record as it is, except those of expired
  periods without a held subject, and keeps every checkpoint.\<close>

theorem postgres_log_append_only:
  assumes "procedures (sv_pgx sv) I A storable" and "boots_on_postgres sv cfg b p0"
    and "st y = OnPostgres p" and "I p" and "carried storable (bt_app b) t y y'"
  shows "\<exists>p'. st y' = OnPostgres p' \<and> I p' \<and> cps (A p) \<subseteq>\<^sub>m cps (A p') \<and>
    (\<forall>k e. log (A p) k = Some e \<longrightarrow> log (A p') k = Some e \<or>
      (log (A p') k = None \<and> \<not> survives (Period (t - RetentionWindow cfg)) (A p) e))"
proof -
  obtain sealer mw where c: "bt_app b = container sv cfg sealer mw" "wired_on_postgres (sv_pgx sv) (bt_app b)"
    using boots_on_postgres_cases [OF assms(2)] .
  note w = procedures.wired_checked [OF assms(1) c(2)]
  have o: "backend_inv (\<lambda>m. False) I (st y)" using assms(3,4) by simp
  note s = procedures.carried_step [OF assms(1) c(2) o assms(5)]
  have "backend_inv (\<lambda>m. False) I (st y')" using wired.step_inv [OF w s o] .
  then obtain p' where p': "st y' = OnPostgres p'" "I p'" by (cases "st y'") auto
  have "rc_Window (app_task (checked_app storable (sv_pgx sv) (bt_app b))) = RetentionWindow cfg" by (simp add: c(1))
  with wired.step_entry [OF w s o] wired.step_cps [OF w s o] p' show ?thesis by (simp add: assms(3))
qed

theorem postgres_log_append_only_witness:
  "\<exists>p'. st (runOnce (app_task pg_app) (\<lambda>i. sample_world) pg_after) = OnPostgres p' \<and>
     log (mem_abs p') ''ev-1'' = Some (entry_of sample_record)"
proof -
  obtain m where m: "st pg_after = OnPostgres m" "mem_inv m" "log (mem_abs m) ''ev-1'' = Some (entry_of sample_record)"
    by (rule pg_after_st)
  have "survives (Period (now sample_world - RetentionWindow (sample_config ''pg''))) \<sigma> (entry_of sample_record)" for \<sigma>
    using Period_cutoff by (simp add: survives_def sample_config_def sample_record_def) (simp add: sample_envelope_def)
  with postgres_log_append_only [where I = mem_inv and A = mem_abs, OF pg_procedures pg_boots m(1,2)
      carried.sweep [of ref_storable pg_app "\<lambda>i. sample_world"]] m(3)
  show ?thesis by blast
qed

end
