(* ===== verification/Command_Line.thy ===== *)
theory Command_Line
  imports Production
begin

text \<open>
  The entry points: \<^verbatim>\<open>cmd/server\<close> (\<^verbatim>\<open>main\<close>, the web command, the registered health
  command) and \<^verbatim>\<open>TestApp\<close> of \<^verbatim>\<open>testing.go\<close>. The process environment is a map; the
  command-line runner, the health command and the framework's server loop are parameters, as are
  the constructors of \<open>services\<close>, which read the environment.
\<close>

type_synonym environment = "string \<Rightarrow> string option"

section \<open>The web command\<close>

record 'o Command =
  cmd_Use :: string
  cmd_Short :: string
  cmd_Default :: bool
  cmd_RunE :: "environment \<Rightarrow> error + 'o"

text \<open>\<^verbatim>\<open>runWeb\<close>: \<^verbatim>\<open>routes.Init\<close> registers the routes and has no error path;
  \<open>RunContext\<close> is the framework's loop over the container, its state and its routes.\<close>

definition runWeb ::
    "('p, 'a, 'r) services \<Rightarrow> (('p, 'a, 'r) booted \<Rightarrow> (('p, 'a, 'r) backend, 'a, 'r) route list \<Rightarrow> 'o) \<Rightarrow> error + 'o" where
  "runWeb sv RunContext =
     (case app_New sv of
        Inl err \<Rightarrow> Inl err
      | Inr b \<Rightarrow> Inr (RunContext b Init))"

definition web_command ::
    "(environment \<Rightarrow> ('p, 'a, 'r) services) \<Rightarrow>
     (('p, 'a, 'r) booted \<Rightarrow> (('p, 'a, 'r) backend, 'a, 'r) route list \<Rightarrow> 'o) \<Rightarrow> 'o Command" where
  "web_command plat RunContext =
     \<lparr>cmd_Use = ''web'', cmd_Short = ''Start web server'', cmd_Default = True,
      cmd_RunE = \<lambda>env. runWeb (plat env) RunContext\<rparr>"

section \<open>The program\<close>

definition Version :: string where
  "Version = ''0.1.0-dev''"

record server_options =
  AppName :: string
  AppVer :: string
  server_Configuration :: Configuration

definition health_command :: "(string \<Rightarrow> server_options \<Rightarrow> 'o Command) \<Rightarrow> 'o Command" where
  "health_command HealthCommand =
     HealthCommand ''/healthz''
       \<lparr>AppName = ''Access Audit Service'', AppVer = Version, server_Configuration = NewConfiguration\<rparr>"

record cli_options =
  opt_Use :: string
  opt_Short :: string
  opt_Long :: string
  opt_Version :: string

definition main_options :: cli_options where
  "main_options =
     \<lparr>opt_Use = ''access-audit'', opt_Short = ''Access Audit Service'',
      opt_Long = ''GDPR-audit (GDPR personal-data access) audit sink. Starts the web server by default.'',
      opt_Version = Version\<rparr>"

definition main_env :: "environment \<Rightarrow> environment" where
  "main_env env =
     (case env ''SERVER_URLS'' of
        None \<Rightarrow> env(''SERVER_URLS'' \<mapsto> ''http://0.0.0.0:8080'')
      | Some _ \<Rightarrow> env)"

text \<open>The commands register in the order of the package's files, and \<open>cli_Run\<close> gets the arguments.\<close>

definition main ::
    "(cli_options \<Rightarrow> 'o Command list \<Rightarrow> string list \<Rightarrow> environment \<Rightarrow> error + 'o) \<Rightarrow>
     (string \<Rightarrow> server_options \<Rightarrow> 'o Command) \<Rightarrow> (environment \<Rightarrow> ('p, 'a, 'r) services) \<Rightarrow>
     (('p, 'a, 'r) booted \<Rightarrow> (('p, 'a, 'r) backend, 'a, 'r) route list \<Rightarrow> 'o) \<Rightarrow>
     string list \<Rightarrow> environment \<Rightarrow> error + 'o" where
  "main cli_Run HealthCommand plat RunContext args env =
     cli_Run main_options [health_command HealthCommand, web_command plat RunContext] args (main_env env)"

section \<open>The application of the tests\<close>

definition test_env :: "environment \<Rightarrow> environment" where
  "test_env env =
     env(''METRICS_ENABLED'' \<mapsto> ''false'', ''SERVICE_NAME'' \<mapsto> ''access-audit'', ''ENVIRONMENT'' \<mapsto> ''development'',
         ''AUTH_ISSUER_URL'' \<mapsto> ''http://localhost:8080'', ''SERVICE_AUDIENCE'' \<mapsto> ''svc:access-audit'',
         ''ACCESS_AUDIT_SEAL_KEY'' \<mapsto> ''test-seal-key-not-a-secret-000000000000'')"

text \<open>\<open>Inl\<close> is the failed assertion.\<close>

definition TestApp ::
    "(environment \<Rightarrow> ('p, 'a, 'r) services) \<Rightarrow> (string \<Rightarrow> string \<Rightarrow> user) \<Rightarrow> environment \<Rightarrow> error + ('p, 'a, 'r) booted" where
  "TestApp plat user_New env =
     (case app_New (plat (test_env env)) of
        Inl err \<Rightarrow> Inl err
      | Inr app \<Rightarrow> Inr (app\<lparr>bt_app := SetAuthMiddleware (TestAuthMiddleware user_New) (bt_app app)\<rparr>))"

section \<open>Lemmas\<close>

lemma main_env_urls: "main_env env ''SERVER_URLS'' = Some (case env ''SERVER_URLS'' of None \<Rightarrow> ''http://0.0.0.0:8080'' | Some u \<Rightarrow> u)"
  by (simp add: main_env_def split: option.split)

lemma main_env_frame: "k \<noteq> ''SERVER_URLS'' \<Longrightarrow> main_env env k = env k"
  by (simp add: main_env_def split: option.split)

lemma runWeb_cases:
  assumes "runWeb sv RunContext = res"
  obtains err where "app_New sv = Inl err" "res = Inl err"
  | b where "app_New sv = Inr b" "res = Inr (RunContext b Init)"
  using assms by (cases "app_New sv") (auto simp: runWeb_def)

text \<open>The runner's contract: without arguments it runs the default command.\<close>

definition runs_default :: "(cli_options \<Rightarrow> 'o Command list \<Rightarrow> string list \<Rightarrow> environment \<Rightarrow> error + 'o) \<Rightarrow> bool" where
  "runs_default cli_Run \<longleftrightarrow>
     (\<forall>opts cmds env c. filter cmd_Default cmds = [c] \<longrightarrow> cli_Run opts cmds [] env = cmd_RunE c env)"

lemma main_runs_web:
  assumes "runs_default cli_Run" and "\<not> cmd_Default (health_command HealthCommand)"
  shows "main cli_Run HealthCommand plat RunContext [] env = runWeb (plat (main_env env)) RunContext"
  using assms by (simp add: main_def runs_default_def web_command_def)

lemma TestApp_boots:
  assumes "TestApp plat user_New env = Inr b"
  obtains b0 where "app_New (plat (test_env env)) = Inr b0" "bt_sys b = bt_sys b0"
    "authMW (bt_app b) = TestAuthMiddleware user_New" "app_store (bt_app b) = app_store (bt_app b0)"
    "app_sealer (bt_app b) = app_sealer (bt_app b0)"
  using assms by (auto simp: TestApp_def SetAuthMiddleware_def split: sum.splits)

text \<open>The loader's contract: a configuration it returns passed the validation in the same environment.\<close>

definition loads_validated ::
    "(environment \<Rightarrow> ('p, 'a, 'r) services) \<Rightarrow> (environment \<Rightarrow> validators) \<Rightarrow> bool" where
  "loads_validated plat vals \<longleftrightarrow>
     (\<forall>env. Getenv (vals env) = (\<lambda>k. case env k of None \<Rightarrow> [] | Some v \<Rightarrow> v) \<and>
       (\<forall>cfg. server_New (plat env) = Inr cfg \<longrightarrow> cfg_Validate (vals env) cfg = None))"

section \<open>Properties\<close>

text \<open>C19: the program fails closed. Started without arguments, with a secret file named for the
  connection string, the program either reports an error or hands the server loop the registered
  routes with a container whose store is on PostgreSQL.\<close>

theorem program_fails_closed:
  assumes "runs_default cli_Run" and "\<not> cmd_Default (health_command HealthCommand)" and "loads_validated plat vals"
    and "env ''ACCESS_AUDIT_STORE_DSN_FILE'' = Some f" and "f \<noteq> []"
    and "main cli_Run HealthCommand plat RunContext [] env = Inr out"
  shows "\<exists>b p. out = RunContext b Init \<and> app_New (plat (main_env env)) = Inr b \<and> st (bt_sys b) = OnPostgres p"
proof -
  let ?sv = "plat (main_env env)"
  have "runWeb ?sv RunContext = Inr out" using main_runs_web [OF assms(1,2)] assms(6) by metis
  then obtain b where b: "app_New ?sv = Inr b" "out = RunContext b Init" by (cases rule: runWeb_cases) auto
  then obtain cfg where cfg: "server_New ?sv = Inr cfg" "app_init ?sv cfg = Inr b"
    by (auto simp: app_New_def split: sum.splits)
  moreover have "Getenv (vals (main_env env)) ''ACCESS_AUDIT_STORE_DSN_FILE'' \<noteq> []"
    using assms(3-5) by (simp add: loads_validated_def main_env_frame)
  ultimately have "StoreBackend cfg = StoreBackendPostgres"
    using assms(3) by (intro valid_backend) (auto simp: loads_validated_def)
  with cfg(2) obtain p where "st (bt_sys b) = OnPostgres p"
    by (elim app_init_cases) (auto dest!: open_store_postgres)
  with b show ?thesis by blast
qed

text \<open>A runner that runs the default command.\<close>

definition sample_run :: "cli_options \<Rightarrow> 'o Command list \<Rightarrow> string list \<Rightarrow> environment \<Rightarrow> error + 'o" where
  "sample_run opts cmds args env = cmd_RunE (hd (filter cmd_Default cmds)) env"

definition sample_health :: "string \<Rightarrow> server_options \<Rightarrow> bool Command" where
  "sample_health path opts =
     \<lparr>cmd_Use = ''health'', cmd_Short = path, cmd_Default = False, cmd_RunE = \<lambda>env. Inr True\<rparr>"

theorem program_fails_closed_witness:
  "\<exists>b p. main sample_run sample_health (\<lambda>env. sample_services ''pg'') (\<lambda>b rts. length rts = 9) []
        [''ACCESS_AUDIT_STORE_DSN_FILE'' \<mapsto> ''/run/dsn''] = Inr True \<and>
     app_New (sample_services ''pg'') = Inr b \<and> st (bt_sys b) = OnPostgres p"
proof -
  let ?plat = "\<lambda>env :: environment. sample_services ''pg''" and ?run = "\<lambda>b rts. length rts = 9"
  let ?vals = "\<lambda>env. (sample_validators [])\<lparr>Getenv := \<lambda>k. case env k of None \<Rightarrow> [] | Some v \<Rightarrow> v\<rparr>"
  let ?env = "[''ACCESS_AUDIT_STORE_DSN_FILE'' \<mapsto> ''/run/dsn'']"
  have r: "runs_default sample_run" "\<not> cmd_Default (health_command sample_health)"
    by (simp_all add: runs_default_def sample_run_def health_command_def sample_health_def)
  have "TrimSpace ''pg'' \<noteq> []" by (simp add: TrimSpace_Nil_iff runes_ascii IsSpace_def)
  then have l: "loads_validated ?plat ?vals"
    unfolding loads_validated_def cfg_Validate_None
    by (simp add: sample_services_simps) (simp add: sample_validators_def sample_tags, simp add: sample_config_def)
  have m: "main sample_run sample_health ?plat ?run [] ?env = Inr True"
    using pg_boots by (simp add: main_runs_web [OF r] runWeb_def boots_on_postgres_def Init_def)
  from program_fails_closed [OF r l _ _ m] m show ?thesis by auto
qed

end
