(* ===== verification/Interleaving.thy ===== *)
theory Interleaving
  imports Service
begin

text \<open>
  Requests between the store calls of a sweep. The task's goroutine runs \<^verbatim>\<open>runOnce\<close> while
  the server handles requests, so other calls can fall between any two of its store calls.
  \<open>sweep_call\<close> is the sweep one store call at a time; undisturbed, its runs are exactly those of
  \<open>runOnce\<close>. \<open>turn\<close> lets requests and the calls of one sweep alternate. A request that changes the
  store makes a single store call, so it is one turn.
\<close>

section \<open>The sweep, one store call at a time\<close>

text \<open>Where the goroutine stands: about to list, in the loop with the periods left, between the two
  store calls of \<^verbatim>\<open>checkpoint\<close> with what the first returned, about to purge, about to sweep the
  evidence, returned.\<close>

datatype sweep_pc =
    Listing
  | Sealing "string list"
  | Saving string "string list" int "string list"
  | Purging
  | Evidence
  | Finished

fun sweep_call ::
    "('s, 'a, 'r) RetentionConfig \<Rightarrow> time \<Rightarrow> world \<Rightarrow> sweep_pc \<Rightarrow> 's sys \<Rightarrow> sweep_pc \<times> 's sys" where
  "sweep_call rc t w Listing y =
     (case on_store (PendingCheckpointPeriods (rc_Store rc) (Period t)) y of
        (Inl err, y) \<Rightarrow> (Purging, log_line rc (LogError ''retention: list pending checkpoints'') y)
      | (Inr pending, y) \<Rightarrow> (Sealing pending, y))"
| "sweep_call rc t w (Sealing []) y = (Purging, y)"
| "sweep_call rc t w (Sealing (p # ps)) y =
     (case on_store (SealsForPeriod (rc_Store rc) p) y of
        (Inl err, y) \<Rightarrow> (Sealing ps, log_line rc (LogError ''retention: checkpoint period'') y)
      | (Inr (seals, n), y) \<Rightarrow> (Saving p seals n ps, y))"
| "sweep_call rc t w (Saving p seals n ps) y =
     (case on_store (SaveCheckpoint (rc_Store rc) w
             \<lparr>CpPeriod = p, RowCount = n, CpSeal = Checkpoint (rc_Sealer rc) seals n, SealedAt = 0\<rparr>) y of
        (Inl err, y) \<Rightarrow> (Sealing ps, log_line rc (LogError ''retention: checkpoint period'') y)
      | (Inr created, y) \<Rightarrow> (Sealing ps, if created then on_tel (CheckpointWritten (rc_Events rc) p n) y else y))"
| "sweep_call rc t w Purging y =
     (case on_store (PurgeExpired (rc_Store rc) (Period (t - rc_Window rc))) y of
        (Inl err, y) \<Rightarrow> (Finished, log_line rc (LogError ''retention: purge'') y)
      | (Inr res, y) \<Rightarrow>
          (Evidence, log_line rc (LogInfo ''retention sweep complete'')
            (on_tel (RetentionPurge (rc_Events rc) (Cutoff res) (Purged res) (RetainedUnderHold res)) y)))"
| "sweep_call rc t w Evidence y =
     (Finished,
      if 0 < rc_VerifyRetentionDays rc then
        (case on_store (SweepVerifyExpired (rc_Store rc) w (rc_VerifyRetentionDays rc)) y of
           (Inl err, y) \<Rightarrow> log_line rc (LogError ''retention: verify-evidence sweep'') y
         | (Inr vres, y) \<Rightarrow> log_line rc (LogInfo ''verify-evidence sweep complete'') y)
      else y)"
| "sweep_call rc t w Finished y = (Finished, y)"

text \<open>The calls a sweep still has to make, once it has its list: every call counts down, whatever
  happened to the store in between.\<close>

fun calls_left :: "sweep_pc \<Rightarrow> nat" where
  "calls_left Listing = 0"
| "calls_left (Sealing ps) = 2 * length ps + 3"
| "calls_left (Saving p seals n ps) = 2 * length ps + 4"
| "calls_left Purging = 2"
| "calls_left Evidence = 1"
| "calls_left Finished = 0"

lemma sweep_call_counts_down:
  "sweep_call rc t w pc y = (pc', y') \<Longrightarrow> pc \<noteq> Listing \<Longrightarrow> pc \<noteq> Finished \<Longrightarrow> calls_left pc' < calls_left pc"
  by (cases "(rc, t, w, pc, y)" rule: sweep_call.cases) (auto split: prod.splits sum.splits)

section \<open>A sweep that is not disturbed\<close>

inductive alone ::
    "('s, 'a, 'r) RetentionConfig \<Rightarrow> time \<Rightarrow> sweep_pc \<times> 's sys \<Rightarrow> sweep_pc \<times> 's sys \<Rightarrow> bool" for rc t where
  halt: "alone rc t c c"
| call: "sweep_call rc t w pc y = c \<Longrightarrow> alone rc t c c' \<Longrightarrow> alone rc t (pc, y) c'"

lemma alone_trans: "alone rc t c c' \<Longrightarrow> alone rc t c' c'' \<Longrightarrow> alone rc t c c''"
  by (induction rule: alone.induct) (auto intro: alone.intros)

text \<open>The part of \<^verbatim>\<open>runOnce\<close> after the loop.\<close>

definition after_sealing :: "('s, 'a, 'r) RetentionConfig \<Rightarrow> time \<Rightarrow> world \<Rightarrow> 's sys \<Rightarrow> 's sys" where
  "after_sealing rc t w y = (case sweep_call rc t w Purging y of (pc, y) \<Rightarrow> snd (sweep_call rc t w pc y))"

lemma runOnce_after_sealing: "runOnce rc clk y = after_sealing rc (now (clk 0)) (clk 1) (seal_pending rc clk y)"
  by (simp add: runOnce_def after_sealing_def Let_def sweep_evidence_def split: prod.split sum.split)

lemma sweep_call_Purging: "sweep_call rc t w Purging y = (pc, y1) \<Longrightarrow> pc = Evidence \<or> pc = Finished"
  by (auto split: prod.splits sum.splits)

lemma alone_after_sealing: "alone rc t (Purging, y) (Finished, after_sealing rc t w y)"
proof -
  obtain pc y1 where c: "sweep_call rc t w Purging y = (pc, y1)" by fastforce
  obtain y2 where "sweep_call rc t w pc y1 = (Finished, y2)"
    using sweep_call_Purging [OF c] by auto
  then have "alone rc t (pc, y1) (Finished, after_sealing rc t w y)"
    using c by (intro alone.call [OF _ alone.halt]) (simp add: after_sealing_def)
  with c show ?thesis by (rule alone.call)
qed

text \<open>One round of the loop: \<^verbatim>\<open>checkpoint\<close>, its error logged.\<close>

abbreviation round_of :: "('s, 'a, 'r) RetentionConfig \<Rightarrow> world \<Rightarrow> string \<Rightarrow> 's sys \<Rightarrow> 's sys" where
  "round_of rc w p y \<equiv>
     (case checkpoint_period rc w p y of
        (Some err, y) \<Rightarrow> log_line rc (LogError ''retention: checkpoint period'') y
      | (None, y) \<Rightarrow> y)"

lemma round_read: "on_store (SealsForPeriod (rc_Store rc) p) y = (Inl err, y1) \<Longrightarrow>
    round_of rc w p y = log_line rc (LogError ''retention: checkpoint period'') y1"
  by (simp add: checkpoint_period_def)

lemma round_saved: "on_store (SealsForPeriod (rc_Store rc) p) y = (Inr (seals, n), y1) \<Longrightarrow>
    sweep_call rc t w (Saving p seals n ps) y1 = (Sealing ps, round_of rc w p y)"
  by (simp add: checkpoint_period_def split: prod.split sum.split)

text \<open>One round of the loop is the two calls of \<^verbatim>\<open>checkpoint\<close>.\<close>

lemma alone_round: "alone rc t (Sealing (p # ps), y) (Sealing ps, round_of rc w p y)"
proof (cases "on_store (SealsForPeriod (rc_Store rc) p) y")
  case (Pair res y1)
  show ?thesis
  proof (cases res)
    case (Inl err)
    with Pair show ?thesis by (intro alone.call [OF _ alone.halt]) (simp add: round_read)
  next
    case (Inr sn)
    obtain seals n where sn: "sn = (seals, n)" by fastforce
    have "alone rc t (Saving p seals n ps, y1) (Sealing ps, round_of rc w p y)"
      using Pair Inr sn by (intro alone.call [OF round_saved alone.halt]) simp
    with Pair Inr sn show ?thesis by (intro alone.call [where w = w, OF refl]) simp
  qed
qed

lemma alone_rounds: "alone rc t (Sealing ps, y) (Purging, checkpoint_all rc clk i ps y)"
proof (induction ps arbitrary: i y)
  case Nil
  show ?case by (rule alone.call [OF _ alone.halt]) simp
next
  case (Cons p ps)
  show ?case
    by (rule alone_trans [OF alone_round [where w = "clk i"]]) (auto split: prod.split option.split intro: Cons.IH)
qed

lemma alone_seal_pending: "alone rc (now (clk 0)) (Listing, y) (Purging, seal_pending rc clk y)"
  unfolding seal_pending_def
  by (rule alone.call [OF refl]) (auto split: prod.split sum.split intro: alone.halt alone_rounds)

text \<open>Conversely, what is left to do from each point on, with a clock for the calls ahead.\<close>

primrec finishes :: "('s, 'a, 'r) RetentionConfig \<Rightarrow> time \<Rightarrow> sweep_pc \<Rightarrow> 's sys \<Rightarrow> 's sys \<Rightarrow> bool" where
  "finishes rc t Listing y y' = (\<exists>clk. now (clk 0) = t \<and> y' = runOnce rc clk y)"
| "finishes rc t (Sealing ps) y y' = (\<exists>ws w. y' = after_sealing rc t w (checkpoint_all rc ws 0 ps y))"
| "finishes rc t (Saving p seals n ps) y y' =
     (\<exists>ws w w0. y' = after_sealing rc t w (checkpoint_all rc ws 0 ps (snd (sweep_call rc t w0 (Saving p seals n ps) y))))"
| "finishes rc t Purging y y' = (\<exists>w. y' = after_sealing rc t w y)"
| "finishes rc t Evidence y y' = (\<exists>w. y' = snd (sweep_call rc t w Evidence y))"
| "finishes rc t Finished y y' = (y' = y)"

lemma checkpoint_all_clock:
  "(\<And>k. clk (i + k) = clk' (j + k)) \<Longrightarrow> checkpoint_all rc clk i ps y = checkpoint_all rc clk' j ps y"
proof (induction ps arbitrary: i j y)
  case (Cons p ps)
  have "clk i = clk' j" using Cons.prems [of 0] by simp
  moreover have "checkpoint_all rc clk (i + 1) ps z = checkpoint_all rc clk' (j + 1) ps z" for z
    using Cons.prems [of "Suc _"] by (intro Cons.IH) simp
  ultimately show ?case by (simp split: prod.split option.split)
qed simp

lemma checkpoint_all_first:
  "\<exists>ws'. checkpoint_all rc ws' 0 (p # ps) y = checkpoint_all rc ws 0 ps (round_of rc w p y)"
proof -
  have "checkpoint_all rc (case_nat w ws) 1 ps z = checkpoint_all rc ws 0 ps z" for z
    by (rule checkpoint_all_clock) simp
  then show ?thesis by (intro exI [of _ "case_nat w ws"]) (simp split: prod.split option.split)
qed

lemma finishes_Listing:
  assumes "sweep_call rc t w Listing y = (pc, y1)" and "finishes rc t pc y1 y'"
  shows "finishes rc t Listing y y'"
proof -
  obtain w1 ws where "y' = after_sealing rc t w1
      (case on_store (PendingCheckpointPeriods (rc_Store rc) (Period t)) y of
         (Inl err, y) \<Rightarrow> log_line rc (LogError ''retention: list pending checkpoints'') y
       | (Inr pending, y) \<Rightarrow> checkpoint_all rc ws 0 pending y)"
    using assms by (auto split: prod.splits sum.splits)
  moreover define clk where "clk i = (case i of 0 \<Rightarrow> w\<lparr>now := t\<rparr> | Suc 0 \<Rightarrow> w1 | Suc (Suc k) \<Rightarrow> ws k)" for i
  moreover have "checkpoint_all rc clk 2 ps z = checkpoint_all rc ws 0 ps z" for ps z
    by (rule checkpoint_all_clock) (simp add: clk_def numeral_2_eq_2)
  ultimately have "y' = runOnce rc clk y" "now (clk 0) = t"
    by (simp_all add: runOnce_after_sealing seal_pending_def clk_def [of 0] clk_def [of "Suc 0"] split: prod.splits sum.splits)
  then show ?thesis by auto
qed

lemma finishes_round:
  assumes "sweep_call rc t w (Sealing (p # ps)) y = (pc, y1)" and "finishes rc t pc y1 y'"
  shows "finishes rc t (Sealing (p # ps)) y y'"
proof -
  obtain w1 ws w0 where "y' = after_sealing rc t w1 (checkpoint_all rc ws 0 ps (round_of rc w0 p y))"
  proof (cases "on_store (SealsForPeriod (rc_Store rc) p) y")
    case (Pair res z)
    show ?thesis
    proof (cases res)
      case (Inl err)
      with assms Pair obtain ws w1 where "y' = after_sealing rc t w1 (checkpoint_all rc ws 0 ps
          (log_line rc (LogError ''retention: checkpoint period'') z))" by auto
      with Pair Inl show ?thesis by (intro that) (simp add: round_read)
    next
      case (Inr sn)
      obtain seals n where sn: "sn = (seals, n)" by fastforce
      with assms Pair Inr have "pc = Saving p seals n ps" "y1 = z" by simp_all
      with assms(2) obtain ws w1 w0 where
        "y' = after_sealing rc t w1 (checkpoint_all rc ws 0 ps (snd (sweep_call rc t w0 (Saving p seals n ps) z)))"
        by (auto simp del: sweep_call.simps)
      moreover have "snd (sweep_call rc t w0 (Saving p seals n ps) z) = round_of rc w0 p y"
        using round_saved [of rc p y seals n z] Pair Inr sn by (simp del: sweep_call.simps)
      ultimately show ?thesis by (intro that) (simp only:)
    qed
  qed
  then show ?thesis using checkpoint_all_first [of rc p ps y ws w0] by (metis finishes.simps(2))
qed

lemma finishes_step:
  assumes "sweep_call rc t w pc y = (pc1, y1)" and "finishes rc t pc1 y1 y'"
  shows "finishes rc t pc y y'"
proof (cases pc)
  case Listing
  then show ?thesis using finishes_Listing assms by blast
next
  case (Sealing ps)
  then show ?thesis using finishes_round assms by (cases ps) fastforce+
next
  case (Saving p seals n ps)
  then obtain "pc1 = Sealing ps" "y1 = snd (sweep_call rc t w pc y)"
    using assms(1) by (auto split: prod.splits sum.splits)
  with Saving assms(2) show ?thesis by auto
next
  case Purging
  have c: "sweep_call rc t w' Purging y = (pc1, y1)" for w' using assms(1) Purging by simp
  from sweep_call_Purging [OF c] show ?thesis
  proof
    assume e: "pc1 = Evidence"
    then obtain w' where "y' = snd (sweep_call rc t w' Evidence y1)" using assms(2) by auto
    then have "y' = after_sealing rc t w' y" unfolding after_sealing_def c e by simp
    then show ?thesis using Purging by auto
  next
    assume f: "pc1 = Finished"
    then have "y' = after_sealing rc t w y" using assms(2) unfolding after_sealing_def c f by simp
    then show ?thesis using Purging by auto
  qed
next
  case Evidence
  then show ?thesis using assms by auto
qed (use assms in auto)

lemma alone_finishes: "alone rc t c c' \<Longrightarrow> c' = (Finished, y') \<Longrightarrow> finishes rc t (fst c) (snd c) y'"
proof (induction rule: alone.induct)
  case (call w pc y c c')
  then show ?case by (cases c) (auto intro: finishes_step)
qed simp

section \<open>Requests between the calls\<close>

text \<open>The goroutine, with the instant its sweep read and where it stands, beside the system. The
  instant of a turn is the one whose cutoff it can apply.\<close>

inductive turn ::
    "('s, 'a, 'r) App \<Rightarrow> time \<Rightarrow> (time \<times> sweep_pc) option \<times> 's sys \<Rightarrow> (time \<times> sweep_pc) option \<times> 's sys \<Rightarrow> bool" for a where
  request: "rt \<in> set Init \<Longrightarrow> serve rt a w ctx y = (res, y') \<Longrightarrow> turn a (now w) (q, y) (q, y')"
| start: "turn a t (None, y) (Some (t, Listing), y)"
| call: "pc \<noteq> Finished \<Longrightarrow> sweep_call (app_task a) t w pc y = (pc', y') \<Longrightarrow>
    turn a t (Some (t, pc), y) (Some (t, pc'), y')"
| return: "turn a t (Some (t, Finished), y) (None, y)"

inductive_cases turnE: "turn a t (q, y) (q', y')"

text \<open>The configurations an interleaving leads to, with the systems it passed through.\<close>

inductive concurrent ::
    "('s, 'a, 'r) App \<Rightarrow> 's sys \<Rightarrow> 's sys list \<Rightarrow> (time \<times> sweep_pc) option \<times> 's sys \<Rightarrow> bool" for a y0 where
  boot: "concurrent a y0 [y0] (None, y0)"
| next_turn: "concurrent a y0 h c \<Longrightarrow> turn a t c c' \<Longrightarrow> concurrent a y0 (snd c' # h) c'"

text \<open>What one call of a sweep can do to the log.\<close>

inductive swept :: "sealer \<Rightarrow> string \<Rightarrow> sweep_pc \<Rightarrow> ('a, 'r) spec \<Rightarrow> ('a, 'r) spec \<Rightarrow> bool" for s cutoff where
  nothing: "swept s cutoff pc \<sigma> \<sigma>"
| saved: "swept s cutoff (Saving p seals n ps) \<sigma>
    (spec_save \<lparr>CpPeriod = p, RowCount = n, CpSeal = Checkpoint s seals n, SealedAt = d\<rparr> \<sigma>)"
| purged: "swept s cutoff Purging \<sigma> (spec_purge cutoff \<sigma>)"
| evidence_swept: "swept s cutoff Evidence \<sigma> (spec_sweep d \<sigma>)"

text \<open>A request that releases the hold on a subject, and a run without one: any other requests, and the
  calls of the sweeps.\<close>

definition releases :: "('s, 'a, 'r) App \<Rightarrow> ('s, 'a, 'r) route \<Rightarrow> ('a, 'r) ctx \<Rightarrow> string \<Rightarrow> bool" where
  "releases a rt ctx s \<longleftrightarrow> route_method rt = DELETE \<and>
     (case authMW a ctx of Inl reply \<Rightarrow> False
      | Inr ctx' \<Rightarrow> Params ctx' ''subject'' = s \<and> HasScopeLevel (User ctx') ''access-audit'' ''admin'')"

inductive unreleased ::
    "('s, 'a, 'r) App \<Rightarrow> string \<Rightarrow> (time \<times> sweep_pc) option \<times> 's sys \<Rightarrow> (time \<times> sweep_pc) option \<times> 's sys \<Rightarrow> bool" for a s c where
  here: "unreleased a s c c"
| request: "unreleased a s c (q, y) \<Longrightarrow> rt \<in> set Init \<Longrightarrow> \<not> releases a rt ctx s \<Longrightarrow> serve rt a w ctx y = (res, y') \<Longrightarrow>
    unreleased a s c (q, y')"
| start: "unreleased a s c (None, y) \<Longrightarrow> unreleased a s c (Some (t, Listing), y)"
| call: "unreleased a s c (Some (t, pc), y) \<Longrightarrow> pc \<noteq> Finished \<Longrightarrow> sweep_call (app_task a) t w pc y = (pc', y') \<Longrightarrow>
    unreleased a s c (Some (t, pc'), y')"
| return: "unreleased a s c (Some (t, Finished), y) \<Longrightarrow> unreleased a s c (None, y)"

text \<open>What a held subject keeps in every run that does not release it: the hold and every record.\<close>

definition keeps_subject :: "string \<Rightarrow> ('a, 'r) spec \<Rightarrow> ('a, 'r) spec \<Rightarrow> bool" where
  "keeps_subject s \<sigma> \<sigma>' \<longleftrightarrow> s \<in> held \<sigma>' \<and>
     (\<forall>k e. log \<sigma> k = Some e \<longrightarrow> s \<in> set (DataSubjects (en_Envelope e)) \<longrightarrow> log \<sigma>' k = Some e)"

lemma swept_held: "swept s c pc \<sigma> \<sigma>' \<Longrightarrow> held \<sigma>' = held \<sigma>"
  by (cases rule: swept.cases, assumption) (auto simp: spec_save_simps spec_purge_frame spec_sweep_def)

lemma held_frames:
  "held (spec_append r \<sigma>) = held \<sigma>" "held (spec_purge c \<sigma>) = held \<sigma>" "held (spec_record_evidence ev \<sigma>) = held \<sigma>"
  "held (spec_hold s h \<sigma>) = (if h then insert s (held \<sigma>) else held \<sigma> - {s})"
  by (simp_all add: spec_append_def Let_def spec_purge_frame spec_record_evidence_def spec_hold_def)

text \<open>Between the two calls of \<^verbatim>\<open>checkpoint\<close> the goroutine holds what an earlier state answered;
  every checkpoint attests the rows of a state the service passed through, or was there before. \<open>A\<close>
  reads the abstract log of a store.\<close>

definition holds_rows :: "('s \<Rightarrow> ('a, 'r) spec) \<Rightarrow> 's sys list \<Rightarrow> (time \<times> sweep_pc) option \<Rightarrow> bool" where
  "holds_rows A h q \<longleftrightarrow> (\<forall>t p seals n ps. q = Some (t, Saving p seals n ps) \<longrightarrow>
     (\<exists>y \<in> set h. seals = spec_seals p (A (st y)) \<and> n = int (length seals)))"

definition attested :: "('s \<Rightarrow> ('a, 'r) spec) \<Rightarrow> sealer \<Rightarrow> 's sys \<Rightarrow> 's sys list \<Rightarrow> 's sys \<Rightarrow> bool" where
  "attested A s y0 h y \<longleftrightarrow> (\<forall>p cp. cps (A (st y)) p = Some cp \<longrightarrow> cps (A (st y0)) p = Some cp \<or>
     (CpPeriod cp = p \<and> (\<exists>y1 \<in> set h. attests s (A (st y1)) cp)))"

lemma concurrent_here: "concurrent a y0 h c \<Longrightarrow> snd c \<in> set h"
  by (cases rule: concurrent.cases, assumption) simp_all

lemma swept_cps: "swept s c pc \<sigma> \<sigma>' \<Longrightarrow> cps \<sigma> \<subseteq>\<^sub>m cps \<sigma>'"
  by (cases rule: swept.cases, assumption) (auto simp: spec_save_def map_le_def spec_purge_frame spec_sweep_def)

lemma swept_entry: "swept s c pc \<sigma> \<sigma>' \<Longrightarrow> log \<sigma> k = Some e \<Longrightarrow>
    log \<sigma>' k = Some e \<or> log \<sigma>' k = None \<and> pc = Purging \<and> \<not> survives c \<sigma> e"
  by (cases rule: swept.cases, assumption) (auto simp: spec_save_simps spec_purge_def spec_sweep_def)

lemma swept_old: "swept s c pc \<sigma> \<sigma>' \<Longrightarrow> log \<sigma>' \<subseteq>\<^sub>m log \<sigma>"
  by (cases rule: swept.cases, assumption)
    (auto simp: spec_save_simps map_le_def spec_purge_def spec_sweep_def split: option.splits if_splits)

lemma map_le_ran: "m \<subseteq>\<^sub>m m' \<Longrightarrow> ran m \<subseteq> ran m'"
  unfolding map_le_def ran_def dom_def by (smt (verit) mem_Collect_eq option.discI subsetI)

lemma swept_sound: "swept s c pc \<sigma> \<sigma>' \<Longrightarrow> sound_log a \<sigma> \<Longrightarrow> sound_log a \<sigma>'"
  unfolding sound_log_def by (drule swept_old, drule map_le_ran) blast

lemma change_old: "change a w ctx \<sigma> \<sigma>' \<Longrightarrow> log \<sigma>' k = Some e \<Longrightarrow> log \<sigma> k = Some e \<or> log \<sigma> k = None"
  by (cases rule: change.cases, assumption)
    (auto simp: spec_append_def Let_def spec_hold_def spec_record_evidence_def spec_purge_log split: if_splits)

context wired
begin

lemma pending_call:
  "on_store (PendingCheckpointPeriods S b) y = (x, y') \<Longrightarrow> inv (st y) \<Longrightarrow> inv (st y') \<and> tel y' = tel y \<and> abs (st y') = abs (st y) \<and>
    (\<forall>ps. x = Inr ps \<longrightarrow> set ps = spec_pending b (abs (st y)))"
  by (elim on_store_cases) (drule (1) pending_law, simp)

lemma seals_call:
  "on_store (SealsForPeriod S p) y = (x, y') \<Longrightarrow> inv (st y) \<Longrightarrow> inv (st y') \<and> tel y' = tel y \<and> abs (st y') = abs (st y) \<and>
    (\<forall>ss n. x = Inr (ss, n) \<longrightarrow> ss = spec_seals p (abs (st y)) \<and> n = int (length ss))"
  by (elim on_store_cases) (drule (1) seals_law, simp)

lemma save_call:
  "on_store (SaveCheckpoint S w cp) y = (x, y') \<Longrightarrow> inv (st y) \<Longrightarrow> inv (st y') \<and> tel y' = tel y \<and>
    (case x of Inl e \<Rightarrow> abs (st y') = abs (st y) | Inr b \<Rightarrow> \<exists>d. abs (st y') = spec_save (cp\<lparr>SealedAt := d\<rparr>) (abs (st y)))"
  by (elim on_store_cases) (drule (1) save_law, auto split: sum.splits)

lemma evidence_sweep_call:
  "on_store (SweepVerifyExpired S w n) y = (x, y') \<Longrightarrow> inv (st y) \<Longrightarrow> inv (st y') \<and> tel y' = tel y \<and>
    (case x of Inl e \<Rightarrow> abs (st y') = abs (st y) | Inr b \<Rightarrow> \<exists>d. abs (st y') = spec_sweep d (abs (st y)))"
  by (elim on_store_cases) (drule (1) sweep_law, auto split: sum.splits)

text \<open>Each call, by where the sweep stands.\<close>

lemma sweep_call_effect:
  assumes "inv (st y)" and "sweep_call (app_task a) t w pc y = (pc', y')"
  shows "inv (st y') \<and> tel_extends (tel y) (tel y') \<and>
    swept (app_sealer a) (Period (t - rc_Window (app_task a))) pc (abs (st y)) (abs (st y'))"
proof (cases pc)
  case Listing
  obtain x y1 where c: "on_store (PendingCheckpointPeriods S (Period t)) y = (x, y1)" by fastforce
  show ?thesis using assms(2) pending_call [OF c assms(1)] c unfolding Listing sweep_call.simps task_wired
    by (cases x) (auto intro: swept.nothing)
next
  case (Sealing ps)
  show ?thesis
  proof (cases ps)
    case (Cons p qs)
    obtain x y1 where c: "on_store (SealsForPeriod S p) y = (x, y1)" by fastforce
    show ?thesis using assms(2) seals_call [OF c assms(1)] c unfolding Sealing Cons sweep_call.simps task_wired
      by (cases x) (auto intro: swept.nothing)
  qed (use assms Sealing in \<open>auto intro: swept.nothing\<close>)
next
  case (Saving p seals n ps)
  let ?cp = "\<lparr>CpPeriod = p, RowCount = n, CpSeal = Checkpoint (app_sealer a) seals n, SealedAt = 0\<rparr>"
  obtain x y1 where c: "on_store (SaveCheckpoint S w ?cp) y = (x, y1)" by fastforce
  show ?thesis using assms(2) save_call [OF c assms(1)] c unfolding Saving sweep_call.simps task_wired
    by (cases x) (auto intro: swept.intros)
next
  case Purging
  obtain x y1 where c: "on_store (PurgeExpired S (Period (t - rc_Window (app_task a)))) y = (x, y1)" by fastforce
  show ?thesis using assms(2) purge_call [OF c assms(1)] c unfolding Purging sweep_call.simps task_wired
    by (cases x) (auto intro: swept.intros)
next
  case Evidence
  obtain x y1 where c: "on_store (SweepVerifyExpired S w (rc_VerifyRetentionDays (app_task a))) y = (x, y1)" by fastforce
  show ?thesis using assms evidence_sweep_call [OF c assms(1)] c unfolding Evidence sweep_call.simps task_wired
    by (cases x) (auto intro: swept.intros)
qed (use assms in \<open>auto intro: swept.nothing\<close>)

subsection \<open>Invariants of every interleaving\<close>

lemma turn_effect:
  assumes "turn a t (q, y) (q', y')" and "inv (st y)"
  shows "inv (st y') \<and> tel_extends (tel y) (tel y') \<and>
    (abs (st y') = abs (st y) \<or> (\<exists>w ctx. now w = t \<and> q' = q \<and> change a w ctx (abs (st y)) (abs (st y'))) \<or>
     (\<exists>pc. q = Some (t, pc) \<and> swept (app_sealer a) (Period (t - rc_Window (app_task a))) pc (abs (st y)) (abs (st y'))))"
  using assms(1)
proof (cases rule: turn.cases)
  case (request rt w ctx res)
  with serve_effect [OF assms(2) request(3,4)] show ?thesis by blast
next
  case (call pc w pc')
  with sweep_call_effect [OF assms(2) call(4)] show ?thesis by blast
qed (use assms(2) in auto)

lemma turn_entry:
  assumes "turn a t (q, y) (q', y')" and "inv (st y)" and e: "log (abs (st y)) k = Some e"
  shows "log (abs (st y')) k = Some e \<or>
    (log (abs (st y')) k = None \<and> \<not> survives (Period (t - rc_Window (app_task a))) (abs (st y)) e)"
  using turn_effect [OF assms(1,2)] change_entry [OF _ e] swept_entry [OF _ e] window_wired e by metis

lemma turn_cps: "turn a t (q, y) (q', y') \<Longrightarrow> inv (st y) \<Longrightarrow> cps (abs (st y)) \<subseteq>\<^sub>m cps (abs (st y'))"
  using turn_effect [of t q y q' y'] change_cps swept_cps by (metis map_le_refl)

lemma turn_sound: "turn a t (q, y) (q', y') \<Longrightarrow> inv (st y) \<Longrightarrow> sound_log a (abs (st y)) \<Longrightarrow> sound_log a (abs (st y'))"
  using turn_effect [of t q y q' y'] sound_log_change swept_sound by metis

lemma concurrent_inv:
  assumes "concurrent a y0 h c" and "inv (st y0)" and "sound_log a (abs (st y0))"
  shows "inv (st (snd c)) \<and> sound_log a (abs (st (snd c)))"
  using assms(1)
proof (induction rule: concurrent.induct)
  case (next_turn h c t c')
  then show ?case using turn_effect turn_sound by (metis prod.collapse)
qed (use assms(2,3) in simp)

text \<open>Only the endpoint that clears holds removes one.\<close>

lemma handlers_held:
  assumes "inv (st y)"
  shows "recordAccess a w ctx y = (res, y') \<Longrightarrow> held (abs (st y')) = held (abs (st y))"
    "recordVerifyEvent a w ctx y = (res, y') \<Longrightarrow> held (abs (st y')) = held (abs (st y))"
    "purge a w ctx y = (res, y') \<Longrightarrow> held (abs (st y')) = held (abs (st y))"
    "placeLegalHold a w ctx y = (res, y') \<Longrightarrow> held (abs (st y)) \<subseteq> held (abs (st y'))"
    "clearLegalHold a w ctx y = (res, y') \<Longrightarrow> held (abs (st y)) \<subseteq> held (abs (st y')) \<union>
       (if HasScopeLevel (User ctx) ''access-audit'' ''admin'' then {Params ctx ''subject''} else {})"
  using assms
  by (auto simp: route_defs requireScope_def store_wired Let_def held_frames split: sum.splits option.splits prod.splits if_splits
      dest!: calls)

lemma readers_held:
  assumes "inv (st y)"
  shows "subjectRecords a w ctx y = (res, y') \<Longrightarrow> held (abs (st y')) = held (abs (st y))"
    "verifySubject a s y = (res, y') \<Longrightarrow> held (abs (st y')) = held (abs (st y))"
    "verifyPeriod a p y = (res, y') \<Longrightarrow> held (abs (st y')) = held (abs (st y))"
    "healthz a w ctx y = (res, y') \<Longrightarrow> held (abs (st y')) = held (abs (st y))"
    "readyz a w ctx y = (res, y') \<Longrightarrow> held (abs (st y')) = held (abs (st y))"
  using assms
  by (auto simp: route_defs requireScope_def store_wired Let_def split: sum.splits option.splits prod.splits if_splits
      dest!: calls check_records_call)

lemma verify_held:
  assumes "inv (st y)" and "verify a w ctx y = (res, y')"
  shows "held (abs (st y')) = held (abs (st y))"
  using assms(2) readers_held(2,3) [OF assms(1)]
  by (auto simp: verify_def requireScope_def split: option.splits if_splits)

lemma handler_held:
  assumes "inv (st y)" and "rt \<in> set Init" and "route_handler rt a w ctx y = (res, y')" and "s \<in> held (abs (st y))"
    and "route_method rt = DELETE \<Longrightarrow> HasScopeLevel (User ctx) ''access-audit'' ''admin'' \<Longrightarrow> Params ctx ''subject'' \<noteq> s"
  shows "s \<in> held (abs (st y'))"
proof -
  consider (clear) "route_method rt = DELETE" "route_handler rt = clearLegalHold" | (place) "route_handler rt = placeLegalHold"
    | (change) "route_handler rt = recordAccess \<or> route_handler rt = recordVerifyEvent \<or> route_handler rt = purge"
    | (read) "route_handler rt = healthz \<or> route_handler rt = readyz \<or> route_handler rt = subjectRecords \<or> route_handler rt = verify"
    using assms(2) by (auto simp: Init_def v1_def)
  then show ?thesis
  proof cases
    case clear
    then show ?thesis using handlers_held(5) [OF assms(1), of w ctx res y'] assms(3-5) by (auto split: if_splits)
  next
    case place
    then show ?thesis using handlers_held(4) [OF assms(1), of w ctx res y'] assms(3,4) by auto
  next
    case change
    then show ?thesis using handlers_held(1-3) [OF assms(1), of w ctx res y'] assms(3,4) by metis
  next
    case read
    then show ?thesis using readers_held(1,4,5) [OF assms(1), of w ctx res y'] verify_held [OF assms(1), of w ctx res y'] assms(3,4)
      by metis
  qed
qed

lemma serve_held:
  assumes "inv (st y)" and "rt \<in> set Init" and "\<not> releases a rt ctx s" and "serve rt a w ctx y = (res, y')"
    and "s \<in> held (abs (st y))"
  shows "s \<in> held (abs (st y'))"
proof (cases "route_authenticated rt")
  case True
  show ?thesis
  proof (cases "authMW a ctx")
    case (Inl refused)
    then show ?thesis using True assms(4,5) by (simp add: serve_def)
  next
    case (Inr ctx')
    then have h: "route_handler rt a w ctx' y = (res, y')" using True assms(4) by (simp add: serve_def)
    show ?thesis using assms(3) Inr by (intro handler_held [OF assms(1,2) h assms(5)]) (auto simp: releases_def)
  qed
next
  case False
  then have "route_method rt \<noteq> DELETE" using assms(2) by (auto simp: Init_def v1_def)
  then show ?thesis using False assms(4,5) handler_held [OF assms(1,2)] by (auto simp: serve_def)
qed

lemma turn_held_entry:
  assumes "turn a t (q, y) (q', y')" and "inv (st y)" and "s \<in> held (abs (st y))"
    and "log (abs (st y)) k = Some e" and "s \<in> set (DataSubjects (en_Envelope e))"
  shows "log (abs (st y')) k = Some e"
  using turn_entry [OF assms(1,2,4)] assms(3,5) by (auto simp: survives_def entry_held_def)

lemma unreleased_keeps:
  assumes "unreleased a s c c'" and "inv (st (snd c))" and "s \<in> held (abs (st (snd c)))"
  shows "inv (st (snd c')) \<and> keeps_subject s (abs (st (snd c))) (abs (st (snd c')))"
  using assms(1)
proof (induction rule: unreleased.induct)
  case (request q y rt ctx w res y')
  have t: "turn a (now w) (q, y) (q, y')" using request.hyps by (intro turn.request)
  show ?case
    using turn_effect [OF t] turn_held_entry [OF t] serve_held [OF _ request.hyps(2-4)] request.IH
    by (auto simp: keeps_subject_def)
next
  case (call t pc y w pc' y')
  have t: "turn a t (Some (t, pc), y) (Some (t, pc'), y')" using call.hyps by (intro turn.call)
  have "held (abs (st y')) = held (abs (st y))" using sweep_call_effect [OF _ call.hyps(3)] call.IH swept_held by (metis snd_conv)
  then show ?case
    using turn_effect [OF t] turn_held_entry [OF t] call.IH by (auto simp: keeps_subject_def)
qed (use assms(2,3) in \<open>simp_all add: keeps_subject_def\<close>)

lemma sweep_call_Saving:
  assumes "sweep_call (app_task a) t w pc y = (Saving p seals n ps, y')" and "inv (st y)"
  shows "seals = spec_seals p (abs (st y)) \<and> n = int (length seals)"
proof -
  have "on_store (SealsForPeriod S p) y = (Inr (seals, n), y')"
    using assms(1) by (cases "(app_task a, t, w, pc, y)" rule: sweep_call.cases)
      (auto simp: task_wired split: prod.splits sum.splits if_splits)
  from seals_call [OF this assms(2)] show ?thesis by simp
qed

lemma turn_holds_rows:
  assumes "turn a t (q, y) (q', y')" and "inv (st y)" and "y \<in> set h" and "holds_rows abs h q"
  shows "holds_rows abs (y' # h) q'"
  using assms(1)
proof (cases rule: turn.cases)
  case (call pc w pc')
  show ?thesis unfolding holds_rows_def
  proof (intro allI impI)
    fix t' p seals n ps
    assume "q' = Some (t', Saving p seals n ps)"
    with call have "sweep_call (app_task a) t w pc y = (Saving p seals n ps, y')" by simp
    from sweep_call_Saving [OF this assms(2)] assms(3)
    show "\<exists>y \<in> set (y' # h). seals = spec_seals p (abs (st y)) \<and> n = int (length seals)" by auto
  qed
qed (use assms(4) in \<open>auto simp: holds_rows_def\<close>)

lemma turn_attested:
  assumes "turn a t (q, y) (q', y')" and "inv (st y)" and "holds_rows abs h q" and "attested abs (app_sealer a) y0 h y"
  shows "attested abs (app_sealer a) y0 (y' # h) y'"
proof -
  have old: "attested abs (app_sealer a) y0 (y' # h) y'" if "cps (abs (st y')) = cps (abs (st y))"
    using assms(4) that by (auto simp: attested_def)
  consider (same) "cps (abs (st y')) = cps (abs (st y))"
    | (saved) p seals n ps d where "q = Some (t, Saving p seals n ps)"
        "abs (st y') = spec_save \<lparr>CpPeriod = p, RowCount = n, CpSeal = Checkpoint (app_sealer a) seals n, SealedAt = d\<rparr> (abs (st y))"
    using turn_effect [OF assms(1,2)]
    by (auto elim!: swept.cases simp: spec_purge_frame spec_sweep_def dest: change_cps)
  then show ?thesis
  proof cases
    case saved
    with assms(3) obtain y1 where y1: "y1 \<in> set h" "seals = spec_seals p (abs (st y1))" "n = int (length seals)"
      unfolding holds_rows_def by blast
    then have "attests (app_sealer a) (abs (st y1))
        \<lparr>CpPeriod = p, RowCount = n, CpSeal = Checkpoint (app_sealer a) seals n, SealedAt = d\<rparr>"
      by (simp add: attests_def)
    with y1(1) assms(4) show ?thesis unfolding attested_def saved(2) by (auto simp: spec_save_def split: if_splits)
  qed (rule old)
qed

lemma concurrent_attested:
  assumes "concurrent a y0 h c" and "inv (st y0)" and "sound_log a (abs (st y0))"
  shows "attested abs (app_sealer a) y0 h (snd c)"
proof -
  have "attested abs (app_sealer a) y0 h (snd c) \<and> holds_rows abs h (fst c)"
    using assms(1)
  proof (induction rule: concurrent.induct)
    case (next_turn h c t c')
    have i: "inv (st (snd c))" using concurrent_inv [OF next_turn.hyps(1) assms(2,3)] ..
    have "turn a t (fst c, snd c) (fst c', snd c')" using next_turn.hyps(2) by simp
    with turn_attested [OF this i] turn_holds_rows [OF this i concurrent_here [OF next_turn.hyps(1)]] next_turn.IH
    show ?case by blast
  qed (auto simp: attested_def holds_rows_def)
  then show ?thesis ..
qed

end

section \<open>A sweep without late records\<close>

text \<open>A sweep that began at instant \<open>t\<close> on \<open>y0\<close>, with requests between its calls that record
  nothing for a period already closed.\<close>

inductive timely ::
    "('s \<Rightarrow> ('a, 'r) spec) \<Rightarrow> ('s, 'a, 'r) App \<Rightarrow> time \<Rightarrow> 's sys \<Rightarrow> sweep_pc \<times> 's sys \<Rightarrow> bool" for A a t y0 where
  begin_sweep: "timely A a t y0 (Listing, y0)"
| request: "timely A a t y0 (pc, y) \<Longrightarrow> rt \<in> set Init \<Longrightarrow> serve rt a w ctx y = (res, y') \<Longrightarrow>
    (\<And>k e. log (A (st y')) k = Some e \<Longrightarrow> log (A (st y)) k = None \<Longrightarrow> Period t \<le> entry_period e) \<Longrightarrow>
    timely A a t y0 (pc, y')"
| call: "timely A a t y0 (pc, y) \<Longrightarrow> sweep_call (app_task a) t w pc y = c \<Longrightarrow> timely A a t y0 c"

lemma timely_alone: "alone (app_task a) t c c' \<Longrightarrow> timely A a t y0 c \<Longrightarrow> timely A a t y0 c'"
  by (induction rule: alone.induct) (auto intro: timely.call)

text \<open>The periods the sweep has not come to yet; every other closed period with rows is sealed.\<close>

fun ahead :: "sweep_pc \<Rightarrow> string set" where
  "ahead Listing = UNIV"
| "ahead (Sealing ps) = set ps"
| "ahead (Saving p seals n ps) = insert p (set ps)"
| "ahead _ = {}"

definition covered :: "time \<Rightarrow> sweep_pc \<Rightarrow> ('a, 'r) spec \<Rightarrow> bool" where
  "covered t pc \<sigma> \<longleftrightarrow> (\<forall>k e. log \<sigma> k = Some e \<and> entry_period e < Period t \<longrightarrow>
     entry_period e \<in> dom (cps \<sigma>) \<union> ahead pc)"

lemma covered_mono:
  assumes "covered t pc \<sigma>" and "ahead pc \<subseteq> ahead pc' \<union> dom (cps \<sigma>')" and "cps \<sigma> \<subseteq>\<^sub>m cps \<sigma>'"
    and "\<And>k e. log \<sigma>' k = Some e \<Longrightarrow> log \<sigma> k = Some e \<or> Period t \<le> entry_period e"
  shows "covered t pc' \<sigma>'"
  unfolding covered_def
proof (intro allI impI)
  fix k e
  assume e: "log \<sigma>' k = Some e \<and> entry_period e < Period t"
  then have "log \<sigma> k = Some e" using assms(4) [of k e] by auto
  with e assms(1) have "entry_period e \<in> dom (cps \<sigma>) \<union> ahead pc" unfolding covered_def by blast
  with assms(2) map_le_implies_dom_le [OF assms(3)] show "entry_period e \<in> dom (cps \<sigma>') \<union> ahead pc'" by blast
qed

locale reliable_wired = wired + reliable_store
begin

lemma total_call:
  assumes "on_store f y = (x, y1)" and "isl (fst (f (st y))) = False"
  obtains r where "x = Inr r"
  using assms by (cases x) (auto elim!: on_store_cases)

lemma sweep_call_covered:
  assumes "inv (st y)" and "sweep_call (app_task a) t w pc y = (pc', y')" and "covered t pc (abs (st y))"
  shows "covered t pc' (abs (st y'))"
proof -
  note e = sweep_call_effect [OF assms(1,2)]
  have m: "cps (abs (st y)) \<subseteq>\<^sub>m cps (abs (st y'))" using e swept_cps by blast
  have o: "log (abs (st y')) k = Some e \<Longrightarrow> log (abs (st y)) k = Some e" for k e
    using e swept_old unfolding map_le_def by (metis domI)
  have "covered t pc' (abs (st y'))" if "ahead pc \<subseteq> ahead pc' \<union> dom (cps (abs (st y')))"
    using covered_mono [OF assms(3) that m] o by blast
  moreover have "ahead pc \<subseteq> ahead pc' \<union> dom (cps (abs (st y')))" if "pc \<noteq> Listing"
  proof (cases pc)
    case (Sealing ps)
    show ?thesis
    proof (cases ps)
      case (Cons p qs)
      obtain x y1 where c: "on_store (SealsForPeriod S p) y = (x, y1)" by fastforce
      then obtain r where "x = Inr r" using seals_total [OF assms(1)] by (rule total_call)
      then show ?thesis using assms(2) c by (cases r) (auto simp: Sealing Cons task_wired)
    qed (use assms Sealing in auto)
  next
    case (Saving p seals n ps)
    let ?cp = "\<lparr>CpPeriod = p, RowCount = n, CpSeal = Checkpoint (app_sealer a) seals n, SealedAt = 0\<rparr>"
    obtain x y1 where c: "on_store (SaveCheckpoint S w ?cp) y = (x, y1)" by fastforce
    then obtain r where r: "x = Inr r" using save_total [OF assms(1)] by (rule total_call)
    obtain d where "abs (st y1) = spec_save (?cp\<lparr>SealedAt := d\<rparr>) (abs (st y))" using save_call [OF c assms(1)] r by auto
    then have "p \<in> dom (cps (abs (st y1)))" by (simp add: spec_save_simps)
    then show ?thesis using assms(2) c r by (auto simp: Saving task_wired split: if_splits)
  qed (use that in auto)
  moreover have "covered t pc' (abs (st y'))" if "pc = Listing"
  proof -
    obtain x y1 where c: "on_store (PendingCheckpointPeriods S (Period t)) y = (x, y1)" by fastforce
    then obtain ps where ps: "x = Inr ps" using pending_total [OF assms(1)] by (rule total_call)
    have "pc' = Sealing ps" "y' = y1" using assms(2) that c ps by (auto simp: task_wired)
    moreover have "abs (st y1) = abs (st y)" "set ps = spec_pending (Period t) (abs (st y))"
      using pending_call [OF c assms(1)] ps by auto
    ultimately show ?thesis by (auto simp: covered_def spec_pending_def period_keys_def)
  qed
  ultimately show ?thesis by blast
qed

lemma timely_covered:
  assumes "timely abs a t y0 c" and "inv (st y0)"
  shows "inv (st (snd c)) \<and> covered t (fst c) (abs (st (snd c)))"
  using assms(1)
proof (induction rule: timely.induct)
  case begin_sweep
  show ?case using assms(2) by (simp add: covered_def)
next
  case (request pc y rt w ctx res y')
  have i: "inv (st y)" using request.IH by simp
  note s = serve_effect [OF i request.hyps(2,3)]
  have "cps (abs (st y)) \<subseteq>\<^sub>m cps (abs (st y'))" using s change_cps by (metis map_le_refl)
  moreover have "log (abs (st y)) k = Some e \<or> Period t \<le> entry_period e" if "log (abs (st y')) k = Some e" for k e
    using s change_old that request.hyps(4) [OF that] by metis
  ultimately have "covered t pc (abs (st y'))"
    using request.IH covered_mono [of t pc "abs (st y)" pc "abs (st y')"] by auto
  then show ?case using s by simp
next
  case (call pc y w c)
  then show ?case using sweep_call_effect sweep_call_covered by (cases c) (metis fst_conv snd_conv)
qed

text \<open>Whatever the sweep is about to delete is sealed.\<close>

lemma timely_sealed:
  assumes "timely abs a t y0 (Purging, y)" and "inv (st y0)" and "log (abs (st y)) k = Some e" and "entry_period e < Period t"
  shows "entry_period e \<in> dom (cps (abs (st y)))"
  using timely_covered [OF assms(1,2)] assms(3,4) by (auto simp: covered_def)

end

section \<open>The wired service\<close>

interpretation conc: reliable_wired "store_iface (postgres_ops sv)" on_memory log_of "container sv cfg sealer mw"
  by (intro reliable_wired.intro svc.wired_axioms dev.reliable_store_axioms)

lemma concurrent_memory:
  assumes "boots_on_memory sv cfg b" and "concurrent (bt_app b) (bt_sys b) h (q, y)"
  obtains m where "st y = InMemory m" "mem_inv m" "on_memory (st y)" "sound_log (bt_app b) (mem_abs m)"
proof -
  obtain sealer mw where c: "bt_app b = container sv cfg sealer mw" and o: "on_memory (st (bt_sys b))"
      "sound_log (bt_app b) (log_of (st (bt_sys b)))"
    using boots_on_memory_cases [OF assms(1)] by metis
  have "on_memory (st y)" "sound_log (bt_app b) (log_of (st y))"
    using svc.concurrent_inv [OF assms(2) [unfolded c] o(1)] o(2) by (simp_all add: c)
  then show ?thesis using that by (metis on_memory_cases)
qed

lemma concurrent_past:
  "concurrent a y0 h c \<Longrightarrow> y1 \<in> set h \<Longrightarrow> \<exists>h' q. concurrent a y0 h' (q, y1)"
proof (induction rule: concurrent.induct)
  case (next_turn h c t c')
  then show ?case using concurrent.next_turn [OF next_turn.hyps] by (metis prod.collapse set_ConsD)
qed (auto intro: concurrent.boot)

lemma concurrent_alone:
  "alone (app_task a) t c c' \<Longrightarrow> concurrent a y0 h (Some (t, fst c), snd c) \<Longrightarrow> \<exists>h'. concurrent a y0 h' (Some (t, fst c'), snd c')"
proof (induction arbitrary: h rule: alone.induct)
  case (call w pc y c c')
  show ?case
  proof (cases "pc = Finished")
    case False
    have "turn a t (Some (t, pc), y) (Some (t, fst c), snd c)"
      using False call.hyps(1) by (intro turn.call [of pc a t w y "fst c" "snd c"]) simp_all
    then show ?thesis using call.IH concurrent.next_turn [of a y0 h "(Some (t, pc), y)"] call.prems by fastforce
  qed (use call in auto)
qed blast

lemma cutoff_before:
  assumes "common_era t" and "common_era (t - d)" and "0 \<le> d"
  shows "Period (t - d) \<le> Period t"
  using assms by (intro Period_mono) simp_all

lemma pending_or_sealed:
  assumes "byEventID m k = Some r" and "row_period r < before"
  shows "row_period r \<in> spec_pending before (mem_abs m) \<union> dom (checkpoints m)"
proof -
  have "k \<in> period_keys (row_period r) (mem_abs m)" using assms(1) by (simp add: period_keys_def)
  then show ?thesis using assms(2) by (auto simp: spec_pending_def)
qed

section \<open>A concrete interleaving\<close>

text \<open>The sample service takes a record while a sweep is about to list, and the sweep goes on to its
  purge.\<close>

abbreviation sample_sealed :: "world \<Rightarrow> ((string, string) Memory, string, string) backend sys" where
  "sample_sealed w \<equiv> seal_pending (app_task sample_app) (\<lambda>i. w) sample_after"

lemma sample_turn: "turn sample_app (now sample_world) (q, bt_sys sample_booted) (q, sample_after)"
  unfolding sample_after_def sample_post_def
  by (rule turn.request [of _ _ _ _ _ "fst (sample_post sample_world (bt_sys sample_booted))"])
    (auto simp: Init_def sample_post_def)

lemma sample_listing:
  "concurrent sample_app (bt_sys sample_booted) [sample_after, bt_sys sample_booted, bt_sys sample_booted]
     (Some (t, Listing), sample_after)"
  using concurrent.next_turn [OF concurrent.next_turn [OF concurrent.boot turn.start] sample_turn] by simp

lemma sample_purging:
  obtains h where "concurrent sample_app (bt_sys sample_booted) h (Some (now w, Purging), sample_sealed w)"
  using concurrent_alone [OF alone_seal_pending [where clk = "\<lambda>i. w"], of sample_app "bt_sys sample_booted" _ sample_after]
    sample_listing by fastforce

lemma sample_container:
  "sample_app = container (sample_services []) (sample_config []) sample_sealer (TestAuthMiddleware sample_user)"
  by (simp add: sample_booted_def)

lemma sample_sealed_state:
  assumes "''2024-05-01'' < Period (now w)"
  obtains m r where "st (sample_sealed w) = InMemory m" "mem_inv m" "byEventID m ''ev-1'' = Some r"
    "entry_of r = entry_of sample_record" "checkpoints m ''2024-05-01'' \<noteq> None" "\<forall>s. holds m s \<noteq> Some True"
proof -
  let ?y = "sample_sealed w"
  obtain m0 where m0: "st sample_after = InMemory m0" "mem_inv m0" "on_memory (st sample_after)"
    using reachable_memory [OF sample_boots sample_reachable] by metis
  have r0: "byEventID m0 ''ev-1'' = Some sample_record" "holds m0 = Map.empty" using m0(1) by (auto simp: sample_after_eq)
  have rc: "rc_Store (app_task sample_app) = store_iface (postgres_ops (sample_services []))" by (simp add: sample_container)
  note e = svc.seal_pending_effect [OF m0(3) rc, of "\<lambda>i. w"] and d = dev.seal_pending_dom [OF m0(3) rc, of "\<lambda>i. w"]
  obtain m where m: "st ?y = InMemory m" "mem_inv m" using e by (auto elim: on_memory_cases)
  have same: "log (mem_abs m) = log (mem_abs m0)" "held (mem_abs m) = held (mem_abs m0)"
    using e by (simp_all add: m(1) m0(1) sealed_by_def del: mem_abs_simps)
  have p: "row_period sample_record = ''2024-05-01''" by (simp add: sample_record_def sample_envelope_def)
  have "''2024-05-01'' \<in> dom (checkpoints m)"
    using d pending_or_sealed [OF r0(1), of "Period (now w)"] assms by (simp add: m(1) m0(1) p)
  moreover obtain r where "byEventID m ''ev-1'' = Some r" "entry_of r = entry_of sample_record"
    using fun_cong [OF same(1), of "''ev-1''"] r0(1) by auto
  moreover have "\<forall>s. holds m s \<noteq> Some True" using same(2) r0(2) by auto
  ultimately show ?thesis using that m by blast
qed

definition late_world :: world where
  "late_world = \<lparr>now = Date 2025 12 3, ulid = ''02J''\<rparr>"

lemma late_window: "now late_world - 365 * 24 * hour_ns = Date 2024 12 3"
  by (simp add: late_world_def Date_def days_of_civil_def days_before_year_def days_before_month_def is_leap_def
      day_ns_def second_def hour_ns_def)

lemma DateOf_late [simp]: "DateOf (Date 2025 12 3) = (2025, 12, 3)"
  by (intro DateOf_Date) (simp_all add: days_in_def days_before_month_def is_leap_def)

lemma Period_late: "Period (now late_world) = ''2025-12-01''"
  unfolding late_world_def
  by (simp add: Period_eq format_date_def appendInt_def pad_def decimal_1 decimal_2 decimal_4 digit_chars)

section \<open>Properties\<close>

text \<open>A sweep is the sequence of its store calls. When no request comes between them, the runs of
  the goroutine from the start of a sweep to its end are exactly those of \<^verbatim>\<open>runOnce\<close> read as one
  step, for every store and whatever fails.\<close>

theorem sweep_is_its_calls:
  "alone rc t (Listing, y) (Finished, y') \<longleftrightarrow> (\<exists>clk. now (clk 0) = t \<and> y' = runOnce rc clk y)"
proof
  assume "alone rc t (Listing, y) (Finished, y')"
  from alone_finishes [OF this refl] show "\<exists>clk. now (clk 0) = t \<and> y' = runOnce rc clk y" by simp
next
  assume "\<exists>clk. now (clk 0) = t \<and> y' = runOnce rc clk y"
  then show "alone rc t (Listing, y) (Finished, y')"
    using alone_seal_pending alone_after_sealing alone_trans runOnce_after_sealing by metis
qed

text \<open>C2: whatever requests come between the store calls of a sweep, a service booted without a
  connection string keeps its records sound: every stored record verifies under its seal, satisfies
  the validation and is sanitised, and the event-id map indexes exactly the stored rows.\<close>

theorem interleaved_records_sound:
  assumes "boots_on_memory sv cfg b" and "concurrent (bt_app b) (bt_sys b) h (q, y)"
  shows "\<exists>m. st y = InMemory m \<and> mem_inv m \<and>
    (\<forall>r \<in> set (records m).
       Verify (fw_codec (sv_framework sv)) (app_sealer (bt_app b)) (Some (Envelope r)) (RowSeal r) \<and>
       Validate (CategoryGDPRAccess (sv_framework sv)) (Envelope r) = None \<and>
       Sanitize (lower_table (sv_framework sv)) (Envelope r) = Envelope r)"
proof -
  obtain m where m: "st y = InMemory m" "mem_inv m" "sound_log (bt_app b) (mem_abs m)"
    using concurrent_memory [OF assms] by blast
  obtain sealer mw where c: "bt_app b = container sv cfg sealer mw"
    using boots_on_memory_cases [OF assms(1)] by metis
  have "sound_entry (bt_app b) (entry_of r)" if "r \<in> set (records m)" for r
    using m(3) that mem_log_iff [OF m(2)] by (fastforce simp: sound_log_def ran_def)
  with m(1,2) show ?thesis by (fastforce simp: sound_entry_def c)
qed

theorem interleaved_records_sound_witness:
  "\<exists>m. st sample_after = InMemory m \<and> records m = [sample_record] \<and>
     Verify sample_codec sample_sealer (Some (Envelope sample_record)) (RowSeal sample_record)"
proof -
  obtain m where m: "st sample_after = InMemory m" "\<forall>r \<in> set (records m).
      Verify (fw_codec (sv_framework (sample_services []))) (app_sealer sample_app) (Some (Envelope r)) (RowSeal r)"
    using interleaved_records_sound [OF sample_boots sample_listing] by blast
  then show ?thesis by (auto simp: sample_after_eq sample_services_simps)
qed

text \<open>C4: the log is append-only under interleaving. One turn of such a service (a request, or one
  store call of the running sweep, at instant \<open>t\<close>) keeps every stored record with its content, seal
  and source, unless the record's period is before that of \<open>t\<close> minus the retention window and none of
  its subjects is under a legal hold at that very call; and it never changes a checkpoint.\<close>

theorem interleaved_log_append_only:
  assumes "boots_on_memory sv cfg b" and "concurrent (bt_app b) (bt_sys b) h (q, y)" and "turn (bt_app b) t (q, y) (q', y')"
  shows "\<exists>m m'. st y = InMemory m \<and> st y' = InMemory m' \<and> checkpoints m \<subseteq>\<^sub>m checkpoints m' \<and>
    (\<forall>k r. byEventID m k = Some r \<longrightarrow>
       (\<exists>r'. byEventID m' k = Some r' \<and> entry_of r' = entry_of r) \<or>
       (byEventID m' k = None \<and> row_period r < Period (t - RetentionWindow cfg) \<and>
        \<not> heldLocked (holds m) (DataSubjects (Envelope r))))"
proof -
  obtain sealer mw where c: "bt_app b = container sv cfg sealer mw"
    using boots_on_memory_cases [OF assms(1)] by metis
  obtain m where m: "st y = InMemory m" "on_memory (st y)" using concurrent_memory [OF assms(1,2)] by metis
  note s = assms(3) [unfolded c]
  obtain m' where m': "st y' = InMemory m'" using svc.turn_effect [OF s m(2)] by (metis on_memory_cases)
  have "checkpoints m \<subseteq>\<^sub>m checkpoints m'" using svc.turn_cps [OF s m(2)] by (simp add: m(1) m')
  moreover have "(\<exists>r'. byEventID m' k = Some r' \<and> entry_of r' = entry_of r) \<or>
      (byEventID m' k = None \<and> row_period r < Period (t - RetentionWindow cfg) \<and>
       \<not> heldLocked (holds m) (DataSubjects (Envelope r)))" if "byEventID m k = Some r" for k r
    using svc.turn_entry [OF s m(2), of k "entry_of r"] that
    by (auto simp: m(1) m' survives_def entry_held_def heldLocked_iff)
  ultimately show ?thesis using m(1) m' by blast
qed

theorem interleaved_log_append_only_witness:
  "\<exists>m' r'. st (snd (sweep_call (app_task sample_app) (now sample_world) sample_world Purging (sample_sealed sample_world))) =
     InMemory m' \<and> byEventID m' ''ev-1'' = Some r' \<and> entry_of r' = entry_of sample_record"
proof -
  let ?c = "sweep_call (app_task sample_app) (now sample_world) sample_world Purging (sample_sealed sample_world)"
  have t: "turn sample_app (now sample_world) (Some (now sample_world, Purging), sample_sealed sample_world)
      (Some (now sample_world, fst ?c), snd ?c)"
    by (rule turn.call [where w = sample_world]) (simp, rule prod.collapse [symmetric])
  obtain h where h: "concurrent sample_app (bt_sys sample_booted) h (Some (now sample_world, Purging), sample_sealed sample_world)"
    by (rule sample_purging)
  have "''2024-05-01'' < Period (now sample_world)" by (simp add: sample_world_def)
  then obtain m r where m: "st (sample_sealed sample_world) = InMemory m" "byEventID m ''ev-1'' = Some r"
      "entry_of r = entry_of sample_record"
    by (rule sample_sealed_state)
  have "\<not> row_period r < Period (now sample_world - RetentionWindow (sample_config []))"
    using m(3) Period_cutoff by (simp add: sample_config_def entry_of_def sample_record_def) (simp add: sample_envelope_def)
  with interleaved_log_append_only [OF sample_boots h t] m show ?thesis by (metis backend.inject(1))
qed

text \<open>C9: a checkpoint attests a state that was. Under any interleaving, every checkpoint the service
  holds seals the rows its period had in one of the states the service passed through, even when
  records arrive or are deleted between the two store calls that make it.\<close>

theorem interleaved_checkpoints_attest:
  assumes "boots_on_memory sv cfg b" and "concurrent (bt_app b) (bt_sys b) h (q, y)"
  shows "\<exists>m. st y = InMemory m \<and> (\<forall>p cp. checkpoints m p = Some cp \<longrightarrow>
    (\<exists>y1 \<in> set h. \<exists>m1 seals. st y1 = InMemory m1 \<and> fst (mem_SealsForPeriod p m1) = Inr (seals, RowCount cp) \<and>
       CpSeal cp = Checkpoint (app_sealer (bt_app b)) seals (RowCount cp)))"
proof -
  obtain sealer mw where c: "bt_app b = container sv cfg sealer mw" and o: "st (bt_sys b) = InMemory NewMemory"
      "on_memory (st (bt_sys b))" "sound_log (bt_app b) (log_of (st (bt_sys b)))"
    using boots_on_memory_cases [OF assms(1)] by metis
  obtain m where m: "st y = InMemory m" using concurrent_memory [OF assms] by metis
  have "\<exists>y1 \<in> set h. \<exists>m1 seals. st y1 = InMemory m1 \<and> fst (mem_SealsForPeriod p m1) = Inr (seals, RowCount cp) \<and>
      CpSeal cp = Checkpoint (app_sealer (bt_app b)) seals (RowCount cp)" if "checkpoints m p = Some cp" for p cp
  proof -
    have "attested log_of sealer (bt_sys b) h y"
      using svc.concurrent_attested [OF assms(2) [unfolded c] o(2)] o(3) c by simp
    with that obtain y1 where y1: "CpPeriod cp = p" "y1 \<in> set h" "attests sealer (log_of (st y1)) cp"
      by (auto simp: attested_def m o(1) NewMemory_def)
    then obtain m1 where "st y1 = InMemory m1" "mem_inv m1"
      using concurrent_past [OF assms(2) y1(2)] concurrent_memory [OF assms(1)] by metis
    with y1 show ?thesis
      using mem_SealsForPeriod_spec [of m1 p] by (intro bexI [of _ y1]) (auto simp: attests_def c simp del: mem_abs_simps)
  qed
  with m show ?thesis by blast
qed

theorem interleaved_checkpoints_attest_witness:
  "\<exists>m cp (m1 :: (string, string) Memory) seals. st (sample_sealed sample_world) = InMemory m \<and> checkpoints m ''2024-05-01'' = Some cp \<and>
     fst (mem_SealsForPeriod ''2024-05-01'' m1) = Inr (seals, RowCount cp) \<and>
     CpSeal cp = Checkpoint sample_sealer seals (RowCount cp)"
proof -
  obtain h where h: "concurrent sample_app (bt_sys sample_booted) h (Some (now sample_world, Purging), sample_sealed sample_world)"
    by (rule sample_purging)
  have "''2024-05-01'' < Period (now sample_world)" by (simp add: sample_world_def)
  then obtain m where m: "st (sample_sealed sample_world) = InMemory m" "checkpoints m ''2024-05-01'' \<noteq> None"
    by (rule sample_sealed_state)
  obtain m' where m': "st (sample_sealed sample_world) = InMemory m'"
    and a: "\<forall>p cp. checkpoints m' p = Some cp \<longrightarrow> (\<exists>y1 \<in> set h. \<exists>m1 seals. st y1 = InMemory m1 \<and>
      fst (mem_SealsForPeriod p m1) = Inr (seals, RowCount cp) \<and> CpSeal cp = Checkpoint (app_sealer sample_app) seals (RowCount cp))"
    using interleaved_checkpoints_attest [OF sample_boots h] by blast
  have "m' = m" using m(1) m' by simp
  with m(2) obtain cp where cp: "checkpoints m' ''2024-05-01'' = Some cp" by blast
  with a obtain m1 :: "(string, string) Memory" and seals where "fst (mem_SealsForPeriod ''2024-05-01'' m1) = Inr (seals, RowCount cp)"
      "CpSeal cp = Checkpoint (app_sealer sample_app) seals (RowCount cp)" by blast
  then show ?thesis using m' cp unfolding sample_app_simps by blast
qed

text \<open>C8: a sweep seals what it deletes, whatever runs beside it, as long as no late record arrives. Of a
  sweep begun at instant \<open>t\<close> beside requests that add no record to a period closed before \<open>t\<close>,
  the purge removes exactly the expired rows without a held subject, and every row it removes is of a
  period that has a checkpoint.\<close>

theorem interleaved_sweep_seals_first:
  assumes "boots_on_memory sv cfg b" and "concurrent (bt_app b) (bt_sys b) h (None, y0)"
    and "timely log_of (bt_app b) t y0 (Purging, y)" and "sweep_call (app_task (bt_app b)) t w Purging y = (pc', y')"
    and "0 \<le> RetentionWindow cfg" and "common_era t" and "common_era (t - RetentionWindow cfg)"
  shows "\<exists>m m'. st y = InMemory m \<and> st y' = InMemory m' \<and>
    (\<forall>k r. byEventID m k = Some r \<longrightarrow>
       (byEventID m' k = None \<longleftrightarrow> row_period r < Period (t - RetentionWindow cfg) \<and>
          \<not> heldLocked (holds m) (DataSubjects (Envelope r))) \<and>
       (byEventID m' k = None \<longrightarrow> checkpoints m' (row_period r) \<noteq> None))"
proof -
  obtain sealer mw where c: "bt_app b = container sv cfg sealer mw"
    using boots_on_memory_cases [OF assms(1)] by metis
  have o: "on_memory (st y0)" using concurrent_memory [OF assms(1,2)] by metis
  note tm = assms(3) [unfolded c]
  obtain m where m: "st y = InMemory m" "mem_inv m"
    using conc.timely_covered [OF tm o] by (auto elim: on_memory_cases)
  obtain g m' where p: "mem_PurgeExpired (Period (t - RetentionWindow cfg)) m = (Inr g, m')"
    by (cases "mem_PurgeExpired (Period (t - RetentionWindow cfg)) m") (auto simp: mem_PurgeExpired_def split: prod.splits)
  have y': "st y' = InMemory m'"
    using assms(4) p by (auto simp: c on_store_def dispatch_store_def m(1))
  have a: "mem_abs m' = spec_purge (Period (t - RetentionWindow cfg)) (mem_abs m)"
    using mem_Purge_law [OF m(2) p] by simp
  have gone: "byEventID m' k = None \<longleftrightarrow> row_period r < Period (t - RetentionWindow cfg) \<and>
      \<not> heldLocked (holds m) (DataSubjects (Envelope r))" if "byEventID m k = Some r" for k r
    using arg_cong [OF a, of "\<lambda>\<sigma>. log \<sigma> k"] that
    by (auto simp: spec_purge_def survives_def entry_held_def heldLocked_iff not_le split: if_splits)
  have c': "checkpoints m' = checkpoints m" using arg_cong [OF a, of cps] by (simp add: spec_purge_frame)
  have "checkpoints m' (row_period r) \<noteq> None" if "byEventID m k = Some r" "byEventID m' k = None" for k r
  proof -
    have "row_period r < Period t" using gone that cutoff_before [OF assms(6,7,5)] less_le_trans by blast
    then show ?thesis using conc.timely_sealed [OF tm o, of k "entry_of r"] that(1) by (auto simp: m(1) c')
  qed
  then show ?thesis using m(1) y' gone by blast
qed

theorem interleaved_sweep_seals_first_witness:
  "\<exists>m m'. st (sample_sealed late_world) = InMemory m \<and> byEventID m ''ev-1'' \<noteq> None \<and>
     st (snd (sweep_call (app_task sample_app) (now late_world) late_world Purging (sample_sealed late_world))) = InMemory m' \<and>
     byEventID m' ''ev-1'' = None \<and> checkpoints m' ''2024-05-01'' \<noteq> None"
proof -
  have w: "RetentionWindow (sample_config []) = 365 * 24 * hour_ns" by (simp add: sample_config_def)
  have e: "0 \<le> RetentionWindow (sample_config [])" "common_era (now late_world)"
      "common_era (now late_world - RetentionWindow (sample_config []))"
    unfolding w late_window by (simp_all add: hour_ns_def common_era_def late_world_def)
  have c: "concurrent sample_app (bt_sys sample_booted) [sample_after, bt_sys sample_booted] (None, sample_after)"
    using concurrent.next_turn [OF concurrent.boot sample_turn] by simp
  have tm: "timely log_of sample_app (now late_world) sample_after (Purging, sample_sealed late_world)"
    by (rule timely_alone [OF _ timely.begin_sweep]) (rule alone_seal_pending [where clk = "\<lambda>i. late_world"])
  have "''2024-05-01'' < Period (now late_world)" by (simp add: Period_late)
  then obtain m r where m: "st (sample_sealed late_world) = InMemory m" "byEventID m ''ev-1'' = Some r"
      "entry_of r = entry_of sample_record" "\<forall>s. holds m s \<noteq> Some True"
    by (rule sample_sealed_state)
  have r: "row_period r = ''2024-05-01''"
    using m(3) by (simp add: entry_of_def sample_record_def) (simp add: sample_envelope_def)
  have "\<not> heldLocked (holds m) xs" for xs using m(4) by (simp add: heldLocked_iff)
  moreover have "row_period r < Period (now late_world - RetentionWindow (sample_config []))"
    unfolding w late_window r by simp
  ultimately show ?thesis
    using interleaved_sweep_seals_first [OF sample_boots c tm prod.collapse [symmetric] e] m(1,2) r
    by (metis backend.inject(1) option.discI)
qed

end
