(* ===== verification/Production_Interleaving.thy ===== *)
theory Production_Interleaving
  imports Production Interleaving
begin

text \<open>
  Requests between the store calls of a sweep, in production. \<open>carried_turn\<close> are the turns of
  \<open>Interleaving\<close> under requests that JSON carries unchanged; what the goroutine holds between two
  calls came from the store and is carried too, so each turn is a turn of the container over the
  restricted store, and the invariants of \<open>wired\<close> hold for every interleaving on PostgreSQL.
\<close>

section \<open>Turns\<close>

inductive carried_turn ::
    "(('a, 'r) envelope \<Rightarrow> bool) \<Rightarrow> ('s, 'a, 'r) App \<Rightarrow> time \<Rightarrow> (time \<times> sweep_pc) option \<times> 's sys \<Rightarrow>
     (time \<times> sweep_pc) option \<times> 's sys \<Rightarrow> bool" for storable a where
  request: "rt \<in> set Init \<Longrightarrow> carried_request storable a rt w ctx \<Longrightarrow> serve rt a w ctx y = (res, y') \<Longrightarrow>
    carried_turn storable a (now w) (q, y) (q, y')"
| start: "carried_turn storable a t (None, y) (Some (t, Listing), y)"
| call: "pc \<noteq> Finished \<Longrightarrow> sweep_call (app_task a) t w pc y = (pc', y') \<Longrightarrow>
    carried_turn storable a t (Some (t, pc), y) (Some (t, pc'), y')"
| return: "carried_turn storable a t (Some (t, Finished), y) (None, y)"

inductive carried_concurrent ::
    "(('a, 'r) envelope \<Rightarrow> bool) \<Rightarrow> ('s, 'a, 'r) App \<Rightarrow> 's sys \<Rightarrow> (time \<times> sweep_pc) option \<times> 's sys \<Rightarrow> bool"
  for storable a y0 where
  boot: "carried_concurrent storable a y0 (None, y0)"
| next_turn: "carried_concurrent storable a y0 c \<Longrightarrow> carried_turn storable a t c c' \<Longrightarrow> carried_concurrent storable a y0 c'"

text \<open>What the goroutine holds can be sent as it is.\<close>

fun pc_carried :: "sweep_pc \<Rightarrow> bool" where
  "pc_carried (Sealing ps) = list_all valid_utf8 ps"
| "pc_carried (Saving p seals n ps) = (valid_utf8 p \<and> in_int64 n \<and> list_all valid_utf8 ps)"
| "pc_carried _ = True"

definition task_carried :: "(time \<times> sweep_pc) option \<Rightarrow> bool" where
  "task_carried q \<longleftrightarrow> (case q of None \<Rightarrow> True | Some (t, pc) \<Rightarrow> pc_carried pc)"

lemma task_carried_simps [simp]: "task_carried None" "task_carried (Some (t, pc)) = pc_carried pc"
  by (simp_all add: task_carried_def)

context procedures
begin

lemma sweep_call_checked:
  assumes "rc_Store rc = store_iface (postgres_store pg)" and "in_int64 (rc_VerifyRetentionDays rc)" and "pc_carried pc"
  shows "sweep_call (rc\<lparr>rc_Store := restricted storable pg\<rparr>) t w pc y = sweep_call rc t w pc y"
proof -
  have v: "valid_utf8 (Checkpoint (rc_Sealer rc) ss n)" for ss n
    using Checkpoint_hex valid_hex by blast
  show ?thesis
    using assms(2,3) v
    by (cases "(rc, t, w, pc, y)" rule: sweep_call.cases)
      (auto simp: restricted_ops assms(1) log_line_store simp del: store_iface_ops split: prod.split sum.split)
qed

lemma sweep_call_carried:
  assumes "rc_Store rc = store_iface (postgres_store pg)" and "on_postgres (st y)" and "pc_carried pc"
    and "sweep_call rc t w pc y = (pc', y')"
  shows "pc_carried pc'"
proof (cases "(rc, t, w, pc, y)" rule: sweep_call.cases)
  case 1
  have "list_all valid_utf8 ps"
    if "on_store (PendingCheckpointPeriods (store_iface (postgres_store pg)) (Period t)) y = (Inr ps, y1)" for ps y1
  proof -
    have "on_store (PendingCheckpointPeriods (restricted storable pg) (Period t)) y = (Inr ps, y1)"
      using that by (simp add: restricted_ops del: store_iface_ops)
    then obtain s where "PendingCheckpointPeriods (restricted storable pg) (Period t) (st y) = (Inr ps, s)"
      by (elim on_store_cases)
    then have "set ps = spec_pending (Period t) (backend_abs abs (st y))"
      using store_contract.pending_law [OF restricted_contract assms(2)] by blast
    then show ?thesis by (auto simp: list_all_iff spec_pending_def period_keys_def)
  qed
  with 1 assms(1,4) show ?thesis by (auto simp del: store_iface_ops split: prod.splits sum.splits)
next
  case (3 rc' t' w' p ps y1)
  with assms seals_count [OF assms(2), of p] show ?thesis
    by (auto simp del: store_iface_ops split: prod.splits sum.splits)
qed (use assms in \<open>auto simp del: store_iface_ops split: prod.splits sum.splits if_splits\<close>)

lemma carried_turn_checked:
  assumes "wired_on_postgres pg a" and "on_postgres (st y)" and "task_carried q" and "carried_turn storable a t (q, y) (q', y')"
  shows "turn (checked_app storable pg a) t (q, y) (q', y') \<and> task_carried q'"
  using assms(4)
proof (cases rule: carried_turn.cases)
  case (request rt w ctx res)
  have "serve rt (checked_app storable pg a) w ctx y = (res, y')"
    using assms(1) request serve_checked [of a pg storable rt w ctx y] by (simp add: wired_on_postgres_def)
  with request assms(3) show ?thesis by (auto intro: turn.request)
next
  case (call pc w pc')
  then have p: "pc_carried pc" using assms(3) by simp
  have "sweep_call (app_task (checked_app storable pg a)) t w pc y = (pc', y')"
    using call assms(1) p by (simp add: wired_on_postgres_def sweep_call_checked del: sweep_call.simps)
  moreover have "pc_carried pc'"
    using sweep_call_carried [OF _ assms(2) p call(4)] assms(1) by (simp add: wired_on_postgres_def)
  ultimately show ?thesis using call by (auto intro: turn.call)
qed (auto intro: turn.start turn.return)

lemma carried_concurrent_inv:
  assumes "wired_on_postgres pg a" and "carried_concurrent storable a y0 c" and "on_postgres (st y0)"
    and "sound_log a (backend_abs abs (st y0))"
  shows "on_postgres (st (snd c)) \<and> task_carried (fst c) \<and> sound_log a (backend_abs abs (st (snd c)))"
  using assms(2)
proof (induction rule: carried_concurrent.induct)
  case (next_turn c t c')
  have "carried_turn storable a t (fst c, snd c) (fst c', snd c')" using next_turn.hyps(2) by simp
  note t = carried_turn_checked [OF assms(1) _ _ this]
  show ?case
    using t next_turn.IH wired.turn_effect [OF wired_checked [OF assms(1)]] wired.turn_sound [OF wired_checked [OF assms(1)]]
    by (metis checked_app_simps(11))
qed (use assms(3,4) in simp)

end

section \<open>A concrete interleaving\<close>

text \<open>The sample service takes a record while a sweep is about to list.\<close>

lemma pg_request: "carried_turn ref_storable pg_app (now sample_world) (q, bt_sys pg_booted) (q, pg_after)"
  using pg_post by (intro carried_turn.request) (auto simp: Init_def carried_request_def sample_auth v1_def pg_representable)

lemma pg_listing: "carried_concurrent ref_storable pg_app (bt_sys pg_booted) (Some (t, Listing), pg_after)"
  using carried_concurrent.boot carried_concurrent.next_turn carried_turn.start pg_request by metis

section \<open>Properties\<close>

text \<open>C5: in production, over procedures that behave as documented and a database whose stored
  records are sound, every interleaving keeps them sound: whatever requests that JSON carries unchanged
  come between the store calls of the sweeps, every record in the database verifies under its seal,
  satisfies the validation and is sanitised.\<close>

theorem postgres_interleaved_records_sound:
  assumes "procedures (sv_pgx sv) I A storable" and "boots_on_postgres sv cfg b p0" and "I p0"
    and "sound_log (bt_app b) (A p0)" and "carried_concurrent storable (bt_app b) (bt_sys b) (q, y)"
  shows "\<exists>p. st y = OnPostgres p \<and> I p \<and>
    (\<forall>k e. log (A p) k = Some e \<longrightarrow>
       Verify (fw_codec (sv_framework sv)) (app_sealer (bt_app b)) (Some (en_Envelope e)) (en_Seal e) \<and>
       Validate (CategoryGDPRAccess (sv_framework sv)) (en_Envelope e) = None \<and>
       Sanitize (lower_table (sv_framework sv)) (en_Envelope e) = en_Envelope e)"
proof -
  obtain sealer mw where c: "bt_app b = container sv cfg sealer mw" "wired_on_postgres (sv_pgx sv) (bt_app b)"
    using boots_on_postgres_cases [OF assms(2)] .
  have s0: "st (bt_sys b) = OnPostgres p0" using assms(2) by (simp add: boots_on_postgres_def)
  note inv = procedures.carried_concurrent_inv [OF assms(1) c(2) assms(5)]
  have "backend_inv (\<lambda>m. False) I (st y)" "sound_log (bt_app b) (backend_abs A (st y))"
    using inv assms(3,4) by (simp_all add: s0)
  then obtain p where p: "st y = OnPostgres p" "I p" "sound_log (bt_app b) (A p)" by (cases "st y") auto
  then have "sound_entry (bt_app b) e" if "log (A p) k = Some e" for k e
    using that by (auto simp: sound_log_def ran_def)
  with p(1,2) show ?thesis by (simp add: sound_entry_def c(1))
qed

theorem postgres_interleaved_records_sound_witness:
  "\<exists>p. st pg_after = OnPostgres p \<and> log (mem_abs p) ''ev-1'' = Some (entry_of sample_record) \<and>
     Verify sample_codec sample_sealer (Some sample_envelope) sample_seal"
proof -
  have l: "sound_log pg_app (mem_abs NewMemory)" by (simp add: sound_log_def ran_def NewMemory_def)
  obtain m where m: "st pg_after = OnPostgres m" "log (mem_abs m) ''ev-1'' = Some (entry_of sample_record)"
    by (rule pg_after_st)
  have "Verify sample_codec sample_sealer (Some (Envelope sample_record)) (RowSeal sample_record)"
    using postgres_interleaved_records_sound [where I = mem_inv and A = mem_abs,
        OF pg_procedures pg_boots mem_inv_NewMemory l pg_listing] m
    by (fastforce simp: sample_services_simps simp del: mem_abs_simps)
  with m show ?thesis by (simp add: sample_record_def)
qed

text \<open>C6: in production the log is append-only under interleaving: over procedures that behave as
  documented, a request that JSON carries unchanged, or one store call of a running sweep, keeps every
  stored record as it is, except those of expired periods without a held subject at that very call,
  and keeps every checkpoint.\<close>

theorem postgres_interleaved_append_only:
  assumes "procedures (sv_pgx sv) I A storable" and "boots_on_postgres sv cfg b p0" and "I p0"
    and "sound_log (bt_app b) (A p0)" and "carried_concurrent storable (bt_app b) (bt_sys b) (q, y)"
    and "carried_turn storable (bt_app b) t (q, y) (q', y')"
  shows "\<exists>p p'. st y = OnPostgres p \<and> st y' = OnPostgres p' \<and> I p' \<and> cps (A p) \<subseteq>\<^sub>m cps (A p') \<and>
    (\<forall>k e. log (A p) k = Some e \<longrightarrow> log (A p') k = Some e \<or>
      (log (A p') k = None \<and> \<not> survives (Period (t - RetentionWindow cfg)) (A p) e))"
proof -
  obtain sealer mw where c: "bt_app b = container sv cfg sealer mw" "wired_on_postgres (sv_pgx sv) (bt_app b)"
    using boots_on_postgres_cases [OF assms(2)] .
  note w = procedures.wired_checked [OF assms(1) c(2)]
  have s0: "st (bt_sys b) = OnPostgres p0" using assms(2) by (simp add: boots_on_postgres_def)
  have o: "backend_inv (\<lambda>m. False) I (st y)" "task_carried q"
    using procedures.carried_concurrent_inv [OF assms(1) c(2) assms(5)] assms(3,4) by (simp_all add: s0)
  note s = conjunct1 [OF procedures.carried_turn_checked [OF assms(1) c(2) o assms(6)]]
  have "backend_inv (\<lambda>m. False) I (st y')" using wired.turn_effect [OF w s o(1)] ..
  then obtain p p' where p: "st y = OnPostgres p" "st y' = OnPostgres p'" "I p'" using o(1) by (cases "st y"; cases "st y'") auto
  have "rc_Window (app_task (checked_app storable (sv_pgx sv) (bt_app b))) = RetentionWindow cfg" by (simp add: c(1))
  with wired.turn_entry [OF w s o(1)] wired.turn_cps [OF w s o(1)] p show ?thesis by simp
qed

theorem postgres_interleaved_append_only_witness:
  "\<exists>p'. st (snd (sweep_call (app_task pg_app) (now sample_world) sample_world Listing pg_after)) = OnPostgres p' \<and>
     log (mem_abs p') ''ev-1'' = Some (entry_of sample_record)"
proof -
  let ?c = "sweep_call (app_task pg_app) (now sample_world) sample_world Listing pg_after"
  have t: "carried_turn ref_storable pg_app (now sample_world) (Some (now sample_world, Listing), pg_after)
      (Some (now sample_world, fst ?c), snd ?c)"
    by (rule carried_turn.call [where w = sample_world]) (simp, rule prod.collapse [symmetric])
  have l: "sound_log pg_app (mem_abs NewMemory)" by (simp add: sound_log_def ran_def NewMemory_def)
  obtain m where m: "st pg_after = OnPostgres m" "log (mem_abs m) ''ev-1'' = Some (entry_of sample_record)"
    by (rule pg_after_st)
  have "survives (Period (now sample_world - RetentionWindow (sample_config ''pg''))) \<sigma> (entry_of sample_record)" for \<sigma>
    using Period_cutoff by (simp add: survives_def sample_config_def sample_record_def) (simp add: sample_envelope_def)
  with postgres_interleaved_append_only [where I = mem_inv and A = mem_abs,
      OF pg_procedures pg_boots mem_inv_NewMemory l pg_listing t] m
  show ?thesis by (metis backend.inject(2))
qed

end
