(* ===== verification/Spec2Isabelle.thy ===== *)
theory Spec2Isabelle
  imports Command_Line Production_Interleaving
begin

text \<open>
  \<^bold>\<open>Verification of the access-audit service.\<close>

  The service is a sink for records of accesses to personal data. Producers post access records;
  each is validated, sanitised, sealed with an HMAC and appended to a store; data-subject requests
  read the records of a subject back and re-check every seal; a retention task seals a checkpoint
  over the rows of every closed month and then deletes the months that left the accountability
  window, except rows of subjects under a legal hold. A second, separate surface keeps evidence
  events of a public verification front end. The development is a shallow embedding of the Go code
  under \<^verbatim>\<open>src/\<close>: pure functions are HOL functions, stateful ones take and return the
  state, errors are values of the datatype \<open>error\<close>, a panic is a reply of its own.

  \<^bold>\<open>Theories and the code they model\<close>, in the order they build on each other:

  \<^item> \<open>Prelude\<close>: error values, decimal digits, generic lemmas. \<open>Go_Time\<close>, \<open>Go_Strings\<close>,
    \<open>Go_Crypto\<close>, \<open>Go_Json\<close>: what the code uses of Go's standard library, as executable
    definitions: calendar, RFC 3339, UTF-8, SHA-256 and HMAC, hex, JSON encoding. \<open>Go_Decode\<close>:
    JSON decoding, the parser and the filling of struct fields; parsing inverts rendering.

  \<^item> \<open>Seal\<close> (\<^verbatim>\<open>seal/seal.go\<close>): the canonical bytes of an envelope, row seals and
    checkpoints. The canonical bytes determine the sealed content, so a seal or a checkpoint accepts
    a changed row or period only on a MAC collision (\<open>seal_tamper_evident\<close>,
    \<open>checkpoint_tamper_evident\<close>).

  \<^item> \<open>Store\<close> (\<^verbatim>\<open>store/store.go\<close>): persisted types, periods, the \<^verbatim>\<open>Store\<close>
    interface as a record of operations, and its contract, the locale \<open>store_contract\<close>: an
    implementation refines an abstract log \<open>spec\<close> with one specification function per operation.
    \<open>reliable_store\<close> adds that no operation fails.

  \<^item> \<open>Memory\<close> (\<^verbatim>\<open>store/memory.go\<close>, the in-memory half of \<^verbatim>\<open>store/verify.go\<close>):
    every operation under the mutex is one function on the record \<open>Memory\<close>; the interpretations
    \<open>mem\<close> discharge both contracts.

  \<^item> \<open>Postgres\<close> (\<^verbatim>\<open>store/postgres.go\<close>, the PostgreSQL half of \<^verbatim>\<open>store/verify.go\<close>):
    \<open>call\<close> and one function per operation, down to the JSON text that is sent and read.
    \<open>Procedures\<close>: the locale \<open>procedures\<close> states what the code relies on of the stored
    procedures; under it the store meets \<open>store_contract\<close> on every argument that JSON carries
    unchanged (\<open>checked\<close>). \<open>Reference_DB\<close>: a database over the in-memory store that satisfies
    \<open>procedures\<close>.

  \<^item> \<open>Request\<close> (\<^verbatim>\<open>routes/request/request.go\<close>): validation and sanitising.
    \<open>Events\<close> (\<^verbatim>\<open>events/events.go\<close>): security events and their delivery. \<open>Web\<close>: what
    a handler sees of a request, the response types of \<^verbatim>\<open>routes/response/response.go\<close>, the
    state \<open>'s sys\<close> of a running service.

  \<^item> \<open>Retention\<close>, \<open>Task\<close> (\<^verbatim>\<open>tasks/retention.go\<close>): one sweep over any store,
    proved for every store that meets the contract; the goroutine with ticker and stop handshake as
    the step function \<open>act\<close>.

  \<^item> \<open>Config\<close> (\<^verbatim>\<open>config.go\<close>, \<^verbatim>\<open>secretfile.go\<close>), \<open>App\<close>
    (\<^verbatim>\<open>app.go\<close>, the middleware of \<^verbatim>\<open>testing.go\<close>): configuration, wiring, the dynamic
    dispatch of the store interface between the two backends.

  \<^item> \<open>Routes\<close> (the other files of \<^verbatim>\<open>routes/\<close>): every handler, the scope check and the
    route table. \<open>Service\<close>: the steps of a running service (a request on a route of \<open>Init\<close>, or a
    sweep), reachability, and the locale \<open>wired\<close> with the invariants of all reachable states; its
    interpretation \<open>svc\<close> is the container that \<^verbatim>\<open>init\<close> builds.

  \<^item> \<open>Interleaving\<close>: the sweep one store call at a time (\<open>sweep_call\<close>), equivalent to
    \<open>runOnce\<close> when undisturbed, and the interleavings of its calls with requests (\<open>turn\<close>,
    \<open>concurrent\<close>), with the invariants that survive them.

  \<^item> \<open>Production\<close>: the same container on PostgreSQL. On requests that JSON carries unchanged and on
    sweeps it behaves as one over the restricted store of \<open>Procedures\<close>, so the invariants of
    \<open>wired\<close> hold in production over documented procedures; \<open>Production_Interleaving\<close> shows
    it with requests between the store calls of the sweeps. \<open>Command_Line\<close>
    (\<^verbatim>\<open>cmd/server\<close>, \<^verbatim>\<open>TestApp\<close>): the program around the container.

  \<^item> This theory: the properties that span components.

  \<^bold>\<open>What the properties show.\<close> For a service booted without a connection string, in every
  reachable state every stored record verifies, is valid and sanitised; stored records and
  checkpoints never change, and records disappear only when expired and not held; stored data
  changes only for authenticated callers with the scope for the change; a legal hold protects its
  subject through every run that does not clear it; a sweep seals before it deletes, also with requests between its store calls, and its checkpoints attest states that were;
  verification detects every difference; a retry of a producer is idempotent; a stop of
  the task returns. The PostgreSQL store refines the same abstract log as the in-memory one, over
  procedures that behave as documented; it reports a structured error alike whether the procedure
  returns or raises it. On top of it the production service keeps every record in the database
  sealed, valid and sanitised, and its log is append-only. Per component: exactness of every store
  operation, of validation and of sanitising, round trips of periods and timestamps, and a boot and
  a program that fail closed. A last group states where the code does not do what its documentation
  says: a late record or a lawful partial purge makes a checkpoint fail, a sweep or a manual purge
  can delete rows that were never sealed,
  the subject check stops at 10000 records while the documented cap of a subject read is not
  applied in memory, sanitising is not recursive, sequence numbers repeat,
  records read from PostgreSQL lack their row id, and periods after the year 9999 sort first.

  \<^bold>\<open>Parameters.\<close> Code outside the repository is an argument of the definitions: the JSON trees
  of the broker's actor and resource types and the float formatter (\<open>codec\<close>), the delivery of
  security events, the request context of the web framework with its decoded bodies, the struct
  validator, the Unicode lower-case table, the authentication middleware, the constructors that
  \<^verbatim>\<open>init\<close> calls, the command-line runner and the server loop, the
  PostgreSQL driver with the database behind it, and the JSON codec of the broker's envelope
  (\<open>pgx\<close>). The clock and the ULID source are the arguments of type \<open>world\<close>.

  \<^bold>\<open>Bounds.\<close> The loops of the program are structural recursions or folds over lists. Only the JSON
  parser has fuel, twice the length of the text and two, which every nested value and separator
  pays for, and \<open>Unmarshal_render\<close> shows it is enough for every rendered text. Times
  are unbounded nanosecond counts; statements that compare periods as dates ask for years 0 to 9999
  (\<open>common_era\<close>). Counters are unbounded integers, since they count rows held in memory. A request
  is one step: those that change the store make one store call, and the in-memory store runs each
  operation under its mutex. A sweep is one step in \<open>Service\<close> and one step per store call in
  \<open>Interleaving\<close>.

  \<^bold>\<open>Not modelled.\<close> The stored procedures, which are deployed with the database; their laws assume
  that a call that fails has been rolled back, so an acknowledgement lost after a commit is outside
  the model; whether they cap a subject read at the documented 10000 records is left open. Path matching, body decoding and the text of responses belong to the web framework.
\<close>

section \<open>The service on its in-memory store\<close>

text \<open>In every reachable state of a service booted without a connection string, every stored
  record verifies under its seal, satisfies the validation and is sanitised, and the event-id map
  indexes exactly the stored rows.\<close>

theorem stored_records_sound:
  assumes "boots_on_memory sv cfg b" and "reachable (bt_app b) (bt_sys b) y"
  shows "\<exists>m. st y = InMemory m \<and> mem_inv m \<and>
    (\<forall>r \<in> set (records m).
       Verify (fw_codec (sv_framework sv)) (app_sealer (bt_app b)) (Some (Envelope r)) (RowSeal r) \<and>
       Validate (CategoryGDPRAccess (sv_framework sv)) (Envelope r) = None \<and>
       Sanitize (lower_table (sv_framework sv)) (Envelope r) = Envelope r)"
proof -
  obtain m where m: "st y = InMemory m" "mem_inv m" "sound_log (bt_app b) (mem_abs m)"
    using reachable_memory [OF assms] by blast
  obtain sealer mw where c: "bt_app b = container sv cfg sealer mw"
    using boots_on_memory_cases [OF assms(1)] by metis
  have "sound_entry (bt_app b) (entry_of r)" if "r \<in> set (records m)" for r
    using m(3) that mem_log_iff [OF m(2)] by (fastforce simp: sound_log_def ran_def)
  with m(1,2) show ?thesis by (fastforce simp: sound_entry_def c)
qed

theorem stored_records_sound_witness:
  "\<exists>m. st sample_after = InMemory m \<and> records m = [sample_record] \<and>
     Verify sample_codec sample_sealer (Some (Envelope sample_record)) (RowSeal sample_record)"
proof -
  obtain m where m: "st sample_after = InMemory m" "\<forall>r \<in> set (records m).
      Verify (fw_codec (sv_framework (sample_services []))) (app_sealer sample_app) (Some (Envelope r)) (RowSeal r)"
    using stored_records_sound [OF sample_boots sample_reachable] by blast
  then show ?thesis by (auto simp: sample_after_eq sample_services_simps)
qed

text \<open>C15: a data-subject request on such a service reports every record it returns as intact and
  raises no alarm: integrity failures come from outside the service only.\<close>

theorem dsar_reports_intact:
  assumes "boots_on_memory sv cfg b" and "reachable (bt_app b) (bt_sys b) y"
    and "subjectRecords (bt_app b) w ctx y = (Reply code (SubjectRecordsBody rs), y')"
  shows "(\<forall>r \<in> set (srs_Records rs). sr_Integrity r = ''ok'') \<and> srs_Count rs = int (length (srs_Records rs)) \<and> y' = y"
proof -
  obtain m where m: "on_memory (st y)" "sound_log (bt_app b) (log_of (st y))"
    using reachable_memory [OF assms(1,2)] by (metis backend_abs.simps(1))
  obtain sealer mw where c: "bt_app b = container sv cfg sealer mw"
    using boots_on_memory_cases [OF assms(1)] by metis
  obtain subj t0 t1 l recs y1 where read: "on_store (BySubject (app_store (bt_app b)) subj t0 t1 l) y = (Inr recs, y1)"
      and chk: "check_records (bt_app b) subj recs y1 = (srs_Records rs, y')" "srs_Count rs = int (length recs)"
    using assms(3)
    by (auto simp: subjectRecords_def requireScope_def Let_def split: if_splits sum.splits option.splits prod.splits)
  have ok: "\<forall>r \<in> set recs. verifies (bt_app b) r"
    using svc.subject_read_verifies [OF m(1) m(2) [unfolded c]] read unfolding c container_simps by blast
  have "y1 = y"
    using read m(1) unfolding c container_simps
    by (auto simp: on_store_def dispatch_store_def mem_BySubject_def Let_def split: prod.splits backend.splits)
  then show ?thesis
    using check_records_out [of "bt_app b" subj recs y1] check_records_quiet [OF ok, of subj y1] chk ok by auto
qed

theorem dsar_reports_intact_witness:
  "\<exists>rs. subjectRecords sample_app sample_world (sample_caller ''access-audit:read'') sample_after =
       (Reply StatusOK (SubjectRecordsBody rs), sample_after) \<and>
     srs_Records rs = [\<lparr>sr_Envelope = sample_envelope, sr_Integrity = ''ok''\<rparr>]"
proof -
  obtain rs y' where r: "subjectRecords sample_app sample_world (sample_caller ''access-audit:read'') sample_after =
      (Reply StatusOK (SubjectRecordsBody rs), y')"
    and rs: "map sr_Envelope (srs_Records rs) = [sample_envelope]"
    by (simp add: subjectRecords_def requireScope_def Let_def timeRange_def time_param_def on_store_def
        dispatch_store_def mem_BySubject_def sample_after_eq sample_record_def sample_envelope_def IsZero_def
        split: prod.splits)
  from dsar_reports_intact [OF sample_boots sample_reachable r] r rs show ?thesis by auto
qed

section \<open>Immutability\<close>

text \<open>The log is append-only up to retention. One step of such a service (a request or a sweep, at
  instant \<open>t\<close>) keeps every stored record with its content, seal and source, unless the record's
  period is before that of \<open>t\<close> minus the retention window and none of its subjects is under a
  legal hold; and it never changes a stored checkpoint.\<close>

theorem log_is_append_only:
  assumes "boots_on_memory sv cfg b" and "reachable (bt_app b) (bt_sys b) y" and "step (bt_app b) t y y'"
  shows "\<exists>m m'. st y = InMemory m \<and> st y' = InMemory m' \<and> checkpoints m \<subseteq>\<^sub>m checkpoints m' \<and>
    (\<forall>k r. byEventID m k = Some r \<longrightarrow>
       (\<exists>r'. byEventID m' k = Some r' \<and> entry_of r' = entry_of r) \<or>
       (byEventID m' k = None \<and> row_period r < Period (t - RetentionWindow cfg) \<and>
        \<not> heldLocked (holds m) (DataSubjects (Envelope r))))"
proof -
  obtain sealer mw where c: "bt_app b = container sv cfg sealer mw"
    using boots_on_memory_cases [OF assms(1)] by metis
  obtain m where m: "st y = InMemory m" "on_memory (st y)" using reachable_memory [OF assms(1,2)] by metis
  note s = assms(3) [unfolded c]
  obtain m' where m': "st y' = InMemory m'" using svc.step_inv [OF s m(2)] by (elim on_memory_cases)
  have "checkpoints m \<subseteq>\<^sub>m checkpoints m'" using svc.step_cps [OF s m(2)] by (simp add: m(1) m')
  moreover have "(\<exists>r'. byEventID m' k = Some r' \<and> entry_of r' = entry_of r) \<or>
      (byEventID m' k = None \<and> row_period r < Period (t - RetentionWindow cfg) \<and>
       \<not> heldLocked (holds m) (DataSubjects (Envelope r)))" if "byEventID m k = Some r" for k r
    using svc.step_entry [OF s m(2), of k "entry_of r"] that
    by (auto simp: m(1) m' survives_def entry_held_def heldLocked_iff)
  ultimately show ?thesis using m(1) m' by blast
qed

theorem log_is_append_only_witness:
  "\<exists>m'. st (snd (sample_post sample_world sample_after)) = InMemory m' \<and>
     (\<exists>r'. byEventID m' ''ev-1'' = Some r' \<and> entry_of r' = entry_of sample_record)"
proof -
  have st: "step sample_app (now sample_world) sample_after (snd (sample_post sample_world sample_after))"
    unfolding sample_post_def
    by (rule step.request [of _ _ _ _ _ "fst (sample_post sample_world sample_after)"])
      (auto simp: Init_def sample_post_def)
  have "\<not> row_period sample_record < Period (now sample_world - RetentionWindow (sample_config []))"
    using Period_cutoff by (simp add: sample_config_def sample_record_def) (simp add: sample_envelope_def)
  moreover obtain m m' where m: "st sample_after = InMemory m" "st (snd (sample_post sample_world sample_after)) = InMemory m'"
    and "\<forall>k r. byEventID m k = Some r \<longrightarrow> (\<exists>r'. byEventID m' k = Some r' \<and> entry_of r' = entry_of r) \<or>
       (byEventID m' k = None \<and> row_period r < Period (now sample_world - RetentionWindow (sample_config [])) \<and>
        \<not> heldLocked (holds m) (DataSubjects (Envelope r)))"
    using log_is_append_only [OF sample_boots sample_reachable st] by blast
  moreover have "byEventID m ''ev-1'' = Some sample_record" using m(1) by (auto simp: sample_after_eq)
  ultimately show ?thesis by blast
qed

section \<open>Authorisation\<close>

text \<open>C10: a request changes the stored data of such a service only when the middleware authenticated
  it, and then only as the caller's scopes allow: the write scope adds records, the admin scope
  removes records or changes holds, the evidence scope adds one evidence event under the caller's
  name; no request changes a checkpoint.\<close>

theorem changes_are_authorised:
  assumes "boots_on_memory sv cfg b" and "reachable (bt_app b) (bt_sys b) y"
    and "rt \<in> set Init" and "serve rt (bt_app b) w ctx y = (res, y')"
  shows "log_of (st y') = log_of (st y) \<or>
    (\<exists>ctx'. authMW (bt_app b) ctx = Inr ctx' \<and> scoped_change (User ctx') (log_of (st y)) (log_of (st y')))"
proof -
  obtain sealer mw where c: "bt_app b = container sv cfg sealer mw"
    using boots_on_memory_cases [OF assms(1)] by metis
  have "on_memory (st y)" using reachable_memory [OF assms(1,2)] by metis
  from svc.serve_effect [OF this assms(3,4) [unfolded c]] show ?thesis
    using change_scoped unfolding c by metis
qed

theorem changes_are_authorised_witness:
  "\<exists>ctx'. authMW sample_app (sample_ctx ''access-audit:write'' sample_envelope) = Inr ctx' \<and>
     scoped_change (User ctx') (log_of (st (bt_sys sample_booted))) (log_of (st sample_after))"
proof -
  have m: "v1 POST ''/access-records'' recordAccess \<in> set Init" by (simp add: Init_def)
  have s: "serve (v1 POST ''/access-records'' recordAccess) sample_app sample_world
      (sample_ctx ''access-audit:write'' sample_envelope) (bt_sys sample_booted) =
      (fst (sample_post sample_world (bt_sys sample_booted)), sample_after)"
    unfolding sample_after_def by (simp add: sample_post_def)
  have "log (log_of (st sample_after)) ''ev-1'' \<noteq> log (log_of (st (bt_sys sample_booted))) ''ev-1''"
    unfolding sample_after_eq by (simp add: sample_booted_def NewMemory_def)
  with changes_are_authorised [OF sample_boots reachable.boot m s] show ?thesis by auto
qed

text \<open>C23: without its scope every protected handler, the one for evidence events with its own check
  included, answers with the forbidden error, leaves the store and the logs alone and raises exactly
  the denial event, whatever else the request carries.\<close>

theorem denied_without_scope:
  assumes "(h, g, level) \<in> {(recordAccess, ''access-audit'', ''write''), (subjectRecords, ''access-audit'', ''read''),
      (verify, ''access-audit'', ''admin''), (placeLegalHold, ''access-audit'', ''admin''),
      (clearLegalHold, ''access-audit'', ''admin''), (purge, ''access-audit'', ''admin''),
      (recordVerifyEvent, ''verify-audit'', ''write'')}"
    and "\<not> HasScopeLevel (User ctx) g level"
  shows "h a w ctx y =
    (Failed ForbiddenError,
     y\<lparr>tel := AuthzDenied (app_events a) (g @ '':'' @ level) (user_ID (User ctx)) (Path ctx) (tel y)\<rparr>)"
  using assms by (auto simp: route_defs requireScope_def on_tel_def)

theorem denied_without_scope_witness:
  "fst (recordVerifyEvent sample_app sample_world (sample_caller ''access-audit:admin'') sample_after) = Failed ForbiddenError"
proof -
  have "\<not> HasScopeLevel (User (sample_caller ''access-audit:admin'')) ''verify-audit'' ''write''" by simp
  from denied_without_scope [OF _ this, of recordVerifyEvent sample_app sample_world sample_after] show ?thesis by simp
qed

section \<open>Recording\<close>

text \<open>C13: recording is idempotent for a producer that retries. After an accepted record (status
  201 or 200), posting the same record again by any caller with the write scope answers 200 with
  the same record id and the duplicate flag, and leaves the store as it is.\<close>

theorem recording_retry_is_idempotent:
  assumes "boots_on_memory sv cfg b" and "reachable (bt_app b) (bt_sys b) y"
    and "recordAccess (bt_app b) w ctx y = (Reply code (RecordedBody rp), y')"
    and "BodyAccessRecord ctx' = BodyAccessRecord ctx" and "HasScopeLevel (User ctx') ''access-audit'' ''write''"
  shows "recordAccess (bt_app b) w' ctx' y' = (Reply StatusOK (RecordedBody (rp\<lparr>rp_Duplicate := True\<rparr>)), y') \<and>
    code = (if rp_Duplicate rp then StatusOK else StatusCreated)"
proof -
  obtain sealer mw where c: "bt_app b = container sv cfg sealer mw"
    using boots_on_memory_cases [OF assms(1)] by metis
  obtain m where m: "st y = InMemory m" using reachable_memory [OF assms(1,2)] by metis
  show ?thesis
    using assms(3-5) m unfolding c
    by (auto simp: recordAccess_def requireScope_def Body_AccessRecord_def Let_def on_store_def dispatch_store_def
        mem_Append_def split: if_splits sum.splits option.splits prod.splits)
qed

theorem recording_retry_is_idempotent_witness:
  "\<exists>rp. recordAccess sample_app sample_world (sample_caller ''access-audit:write'') sample_after =
     (Reply StatusOK (RecordedBody rp), sample_after) \<and> rp_RecordID rp = ''01J'' \<and> rp_Duplicate rp"
proof -
  have first: "recordAccess sample_app sample_world (sample_caller ''access-audit:write'') (bt_sys sample_booted) =
      (Reply StatusCreated (RecordedBody \<lparr>rp_RecordID = ''01J'', rp_EventID = ''ev-1'', rp_Duplicate = False\<rparr>), sample_after)"
    unfolding sample_handler sample_after_eq on_store_def
    by (simp add: sample_booted_def dispatch_store_def mem_Append_def NewMemory_def Let_def sample_record_def
        sample_world_def) (simp add: sample_envelope_def)
  from recording_retry_is_idempotent [OF sample_boots reachable.boot first refl, of sample_world]
  show ?thesis by simp
qed

section \<open>Retention\<close>

lemma sealed_by_memory:
  assumes "mem_inv m" and "sealed_by sealer (mem_abs m) \<sigma>" and "cps \<sigma> p = Some c" and "checkpoints m p \<noteq> Some c"
  shows "\<exists>seals. fst (mem_SealsForPeriod p m) = Inr (seals, RowCount c) \<and> CpSeal c = Checkpoint sealer seals (RowCount c)"
proof -
  have "CpPeriod c = p \<and> attests sealer (mem_abs m) c" using assms(2-4) unfolding sealed_by_def by auto
  then show ?thesis using mem_SealsForPeriod_spec [OF assms(1), of p] by (auto simp: attests_def)
qed

text \<open>C7: a sweep on the in-memory store seals before it purges. Afterwards every row it removed, and
  every row of a closed period, belongs to a period with a checkpoint; a checkpoint that was not
  there before attests exactly the seals and the count of the rows its period had before the
  purge; and exactly the unheld rows before the cutoff are gone.\<close>

theorem sweep_seals_before_purging:
  assumes "boots_on_memory sv cfg b" and "reachable (bt_app b) (bt_sys b) y" and "0 \<le> RetentionWindow cfg"
    and "common_era (now (clk 0))" and "common_era (now (clk 0) - RetentionWindow cfg)"
  shows "\<exists>m m'. st y = InMemory m \<and> st (runOnce (app_task (bt_app b)) clk y) = InMemory m' \<and>
    (\<forall>k r. byEventID m k = Some r \<longrightarrow>
       (byEventID m' k = None \<longleftrightarrow> row_period r < Period (now (clk 0) - RetentionWindow cfg) \<and>
          \<not> heldLocked (holds m) (DataSubjects (Envelope r))) \<and>
       (byEventID m' k = None \<or> row_period r < Period (now (clk 0)) \<longrightarrow> checkpoints m' (row_period r) \<noteq> None)) \<and>
    (\<forall>p cp. checkpoints m' p = Some cp \<longrightarrow> checkpoints m p = Some cp \<or>
       (\<exists>seals. fst (mem_SealsForPeriod p m) = Inr (seals, RowCount cp) \<and>
          CpSeal cp = Checkpoint (app_sealer (bt_app b)) seals (RowCount cp)))"
proof -
  obtain m where m: "st y = InMemory m" "mem_inv m" using reachable_memory [OF assms(1,2)] by metis
  let ?cut = "Period (now (clk 0) - RetentionWindow cfg)"
  show ?thesis
  proof (rule sweep_on_memory [OF assms(1) m, of clk])
    fix m' \<sigma>
    assume m': "st (runOnce (app_task (bt_app b)) clk y) = InMemory m'" "mem_inv m'"
      and s: "sealed_by (app_sealer (bt_app b)) (mem_abs m) \<sigma>"
      and d: "dom (cps \<sigma>) = spec_pending (Period (now (clk 0))) (mem_abs m) \<union> dom (checkpoints m)"
      and cp: "checkpoints m' = cps \<sigma>" and l: "log (mem_abs m') = log (spec_purge ?cut \<sigma>)"
    have \<sigma>: "held \<sigma> = held (mem_abs m)" "log \<sigma> = log (mem_abs m)" using s by (simp_all add: sealed_by_def)
    have gone: "byEventID m' k = None \<longleftrightarrow> row_period r < ?cut \<and> \<not> heldLocked (holds m) (DataSubjects (Envelope r))"
      if "byEventID m k = Some r" for k r
      using fun_cong [OF l, of k] that \<sigma>
      by (auto simp: spec_purge_def survives_def entry_held_def heldLocked_iff not_le split: if_splits)
    have sealed: "checkpoints m' (row_period r) \<noteq> None"
      if "byEventID m k = Some r" "row_period r < Period (now (clk 0))" for k r
      using pending_or_sealed [OF that] d by (auto simp: cp)
    have att: "\<exists>seals. fst (mem_SealsForPeriod p m) = Inr (seals, RowCount c) \<and>
        CpSeal c = Checkpoint (app_sealer (bt_app b)) seals (RowCount c)"
      if "checkpoints m' p = Some c" "checkpoints m p \<noteq> Some c" for p c
      using sealed_by_memory [OF m(2) s] that by (simp add: cp)
    show ?thesis
      using m(1) m'(1) gone sealed att cutoff_before [OF assms(4,5,3)] less_le_trans by (intro exI conjI) (assumption | blast)+
  qed
qed

theorem sweep_seals_before_purging_witness:
  "\<exists>m'. st (runOnce (app_task sample_app) (\<lambda>i. sample_world) sample_after) = InMemory m' \<and>
     checkpoints m' ''2024-05-01'' \<noteq> None \<and> byEventID m' ''ev-1'' \<noteq> None"
proof -
  have w: "RetentionWindow (sample_config []) = 365 * 24 * hour_ns" by (simp add: sample_config_def)
  have h: "0 \<le> RetentionWindow (sample_config [])" by (simp add: w hour_ns_def)
  have e: "common_era (now ((\<lambda>i :: nat. sample_world) 0))"
      "common_era (now ((\<lambda>i :: nat. sample_world) 0) - RetentionWindow (sample_config []))"
    unfolding w by (simp_all only: sample_window) (simp_all add: common_era_def sample_world_def)
  obtain m m' where m: "st sample_after = InMemory m"
      "st (runOnce (app_task sample_app) (\<lambda>i. sample_world) sample_after) = InMemory m'"
    and a: "\<forall>k r. byEventID m k = Some r \<longrightarrow>
       (byEventID m' k = None \<longleftrightarrow> row_period r < Period (now sample_world - RetentionWindow (sample_config [])) \<and>
          \<not> heldLocked (holds m) (DataSubjects (Envelope r))) \<and>
       (byEventID m' k = None \<or> row_period r < Period (now sample_world) \<longrightarrow> checkpoints m' (row_period r) \<noteq> None)"
    using sweep_seals_before_purging [OF sample_boots sample_reachable h e] by blast
  have "byEventID m ''ev-1'' = Some sample_record" using m(1) by (auto simp: sample_after_eq)
  moreover have "row_period sample_record = ''2024-05-01''" by (simp add: sample_record_def sample_envelope_def)
  moreover have "Period (now sample_world) = ''2024-12-01''" by (simp add: sample_world_def)
  ultimately show ?thesis using a [rule_format, of "''ev-1''"] m(2) Period_cutoff w by simp
qed

section \<open>Verification\<close>

lemma stored_seals_hex:
  assumes "mem_inv m" and "sound_log a (mem_abs m)" and "x \<in> set (spec_seals p (mem_abs m))"
  shows "list_all is_hex x"
proof -
  have "finite (period_keys p (mem_abs m))"
    using mem_abs_ok [OF assms(1)] by (auto simp: spec_ok_def period_keys_def intro: finite_subset [of _ "dom (log (mem_abs m))"])
  then obtain k e where "log (mem_abs m) k = Some e" "x = en_Seal e"
    using assms(3) by (auto simp: spec_seals_def period_keys_def simp del: mem_abs_simps)
  then have "sound_entry a e" using assms(2) by (auto simp: sound_log_def ran_def simp del: mem_abs_simps)
  then show ?thesis using Seal_hex \<open>x = en_Seal e\<close> by (auto simp: sound_entry_def Verify_iff)
qed

lemma verifyPeriod_on_memory:
  assumes "boots_on_memory sv cfg b" and "st y = InMemory m" and "mem_inv m"
    and "normalizePeriod q = Some p" and "checkpoints m p = Some cp"
  shows "verifyPeriod (bt_app b) q y =
    (let ys = spec_seals p (mem_abs m); ok = VerifyCheckpoint (app_sealer (bt_app b)) ys (int (length ys)) (CpSeal cp)
     in (Reply StatusOK (VerifyBody \<lparr>v_Scope = ''period'', v_Target = p, v_Checked = int (length ys), v_OK = ok,
           v_Mismatches = (if ok then [] else [p])\<rparr>),
         if ok then y else on_tel (IntegrityMismatch (app_events (bt_app b)) (''period:'' @ p)
           (''checkpoint mismatch '' @ em_dash @ '' rows added or removed since sealing'')) y))"
proof -
  obtain sealer mw where c: "bt_app b = container sv cfg sealer mw"
    using boots_on_memory_cases [OF assms(1)] by metis
  have "y\<lparr>st := InMemory m\<rparr> = y" using assms(2) by (cases y) simp
  then show ?thesis
    using assms(2,4,5) mem_SealsForPeriod_spec [OF assms(3), of p]
    by (simp add: c verifyPeriod_def on_store_def dispatch_store_def mem_LoadCheckpoint_def Let_def)
qed

text \<open>C12: verifying a period detects every difference. On a reachable state, against a stored
  checkpoint made over the seals \<open>xs\<close> and the count \<open>n\<close>, the answer is positive exactly when the
  period's current seals and count are those, or the MAC collides; a negative answer raises the
  high-severity integrity event, a positive one changes nothing.\<close>

theorem verify_period_detects:
  assumes "boots_on_memory sv cfg b" and "reachable (bt_app b) (bt_sys b) y" and "st y = InMemory m"
    and "normalizePeriod q = Some p" and "checkpoints m p = Some cp"
    and "CpSeal cp = Checkpoint (app_sealer (bt_app b)) xs n" and "\<forall>x \<in> set xs. list_all is_hex x"
  shows "\<exists>ys v y'. fst (mem_SealsForPeriod p m) = Inr (ys, int (length ys)) \<and>
    verifyPeriod (bt_app b) q y = (Reply StatusOK (VerifyBody v), y') \<and> v_Checked v = int (length ys) \<and>
    (v_OK v \<longleftrightarrow> (ys = xs \<and> int (length ys) = n) \<or>
       mac_collision (key (app_sealer (bt_app b))) (checkpoint_bytes ys (int (length ys))) (checkpoint_bytes xs n)) \<and>
    y' = (if v_OK v then y else on_tel (IntegrityMismatch (app_events (bt_app b)) (''period:'' @ p)
       (''checkpoint mismatch '' @ em_dash @ '' rows added or removed since sealing'')) y)"
proof -
  obtain m0 where m0: "st y = InMemory m0" "mem_inv m0" "sound_log (bt_app b) (mem_abs m0)"
    using reachable_memory [OF assms(1,2)] by metis
  then have m: "mem_inv m" "sound_log (bt_app b) (mem_abs m)" using assms(3) by auto
  let ?ys = "spec_seals p (mem_abs m)"
  have "\<forall>x \<in> set xs \<union> set ?ys. no_newline x"
    using stored_seals_hex [OF m, of _ p] assms(7) hex_no_newline by blast
  from VerifyCheckpoint_iff [OF this, of "app_sealer (bt_app b)" "int (length ?ys)" n]
  have "VerifyCheckpoint (app_sealer (bt_app b)) ?ys (int (length ?ys)) (CpSeal cp) \<longleftrightarrow>
      (?ys = xs \<and> int (length ?ys) = n) \<or>
      mac_collision (key (app_sealer (bt_app b))) (checkpoint_bytes ?ys (int (length ?ys))) (checkpoint_bytes xs n)"
    by (simp add: assms(6))
  then show ?thesis
    using verifyPeriod_on_memory [OF assms(1,3) m(1) assms(4,5)] mem_SealsForPeriod_spec [OF m(1), of p]
    by (intro exI [of _ ?ys]) (simp add: Let_def)
qed

lemma freshly_sealed:
  assumes "boots_on_memory sv cfg b" and "st y = InMemory m" and "mem_inv m" and "byEventID m k = Some r"
    and "checkpoints m (row_period r) = None" and "row_period r < Period (now (clk 0))"
    and "Period (now (clk 0) - RetentionWindow cfg) \<le> row_period r"
  obtains m' cp where "st (runOnce (app_task (bt_app b)) clk y) = InMemory m'" "mem_inv m'"
    "checkpoints m' (row_period r) = Some cp"
    "CpSeal cp = Checkpoint (app_sealer (bt_app b)) (spec_seals (row_period r) (mem_abs m))
       (int (length (spec_seals (row_period r) (mem_abs m))))"
    "spec_seals (row_period r) (mem_abs m') = spec_seals (row_period r) (mem_abs m)"
proof (rule sweep_on_memory [OF assms(1-3), of clk])
  fix m' \<sigma>
  let ?p = "row_period r" and ?cut = "Period (now (clk 0) - RetentionWindow cfg)"
  assume m': "st (runOnce (app_task (bt_app b)) clk y) = InMemory m'" "mem_inv m'"
    and s: "sealed_by (app_sealer (bt_app b)) (mem_abs m) \<sigma>"
    and d: "dom (cps \<sigma>) = spec_pending (Period (now (clk 0))) (mem_abs m) \<union> dom (checkpoints m)"
    and cp: "checkpoints m' = cps \<sigma>" and l: "log (mem_abs m') = log (spec_purge ?cut \<sigma>)"
  have "k \<in> period_keys ?p (mem_abs m)" using assms(4) by (simp add: period_keys_def)
  then have "?p \<in> dom (cps \<sigma>)" using assms(5,6) unfolding d by (auto simp: spec_pending_def)
  then obtain c where c: "cps \<sigma> ?p = Some c" by blast
  then have "CpPeriod c = ?p \<and> attests (app_sealer (bt_app b)) (mem_abs m) c"
    using s assms(5) unfolding sealed_by_def by fastforce
  moreover have "spec_seals ?p (mem_abs m') = spec_seals ?p (mem_abs m)"
    using spec_seals_cong [OF l] spec_purge_seals [OF assms(7) sealed_by_ok [OF s mem_abs_ok [OF assms(3)]]]
      spec_seals_cong [of \<sigma> "mem_abs m"] s by (simp add: sealed_by_def)
  ultimately show thesis using that [OF m'] c cp by (simp add: attests_def)
qed

text \<open>C22: a period that the sweep has just sealed, and that is within the window, verifies: asking for
  its year and month right after the sweep answers that all its rows are intact.\<close>

theorem freshly_sealed_period_verifies:
  assumes "boots_on_memory sv cfg b" and "reachable (bt_app b) (bt_sys b) y" and "st y = InMemory m"
    and "byEventID m k = Some r" and "common_era (OccurredAt (Envelope r))"
    and "checkpoints m (row_period r) = None" and "row_period r < Period (now (clk 0))"
    and "Period (now (clk 0) - RetentionWindow cfg) \<le> row_period r"
  shows "let y' = runOnce (app_task (bt_app b)) clk y
    in verifyPeriod (bt_app b) (take 7 (row_period r)) y' =
       (Reply StatusOK (VerifyBody \<lparr>v_Scope = ''period'', v_Target = row_period r,
          v_Checked = int (length (filter (\<lambda>r'. row_period r' = row_period r) (records m))), v_OK = True, v_Mismatches = []\<rparr>), y')"
proof -
  obtain m0 where "st y = InMemory m0" "mem_inv m0" using reachable_memory [OF assms(1,2)] by metis
  then have m: "mem_inv m" using assms(3) by simp
  have n: "int (length (spec_seals (row_period r) (mem_abs m))) =
      int (length (filter (\<lambda>r'. row_period r' = row_period r) (records m)))"
    using mem_SealsForPeriod_spec [OF m, of "row_period r"] by (simp add: mem_SealsForPeriod_def Let_def)
  show ?thesis
  proof (rule freshly_sealed [where clk = clk, OF assms(1,3) m assms(4,6-8)])
    fix m' cp
    assume m': "st (runOnce (app_task (bt_app b)) clk y) = InMemory m'" "mem_inv m'"
      and c: "checkpoints m' (row_period r) = Some cp"
        "CpSeal cp = Checkpoint (app_sealer (bt_app b)) (spec_seals (row_period r) (mem_abs m))
          (int (length (spec_seals (row_period r) (mem_abs m))))"
        "spec_seals (row_period r) (mem_abs m') = spec_seals (row_period r) (mem_abs m)"
    show ?thesis
      using verifyPeriod_on_memory [OF assms(1) m' normalizePeriod_Period(2) [OF assms(5)] c(1)] c(2,3) n
      by (simp add: Let_def VerifyCheckpoint_def)
  qed
qed

definition sample_swept :: "((string, string) Memory, string, string) backend sys" where
  "sample_swept = runOnce (app_task sample_app) (\<lambda>i. sample_world) sample_after"

lemma sample_swept_reachable: "reachable sample_app (bt_sys sample_booted) sample_swept"
  unfolding sample_swept_def
  by (rule reachable.next_step [OF sample_reachable step.sweep [of _ "\<lambda>i. sample_world"]])

lemma sample_facts:
  "\<exists>m. st sample_after = InMemory m \<and> mem_inv m \<and> byEventID m ''ev-1'' = Some sample_record \<and> records m = [sample_record] \<and>
     checkpoints m = Map.empty"
  "row_period sample_record = ''2024-05-01''" "OccurredAt (Envelope sample_record) = Date 2024 5 17"
  "Period (now sample_world) = ''2024-12-01''" "Period (now sample_world - RetentionWindow (sample_config [])) = ''2023-12-01''"
proof -
  obtain m where "st sample_after = InMemory m" "mem_inv m" using reachable_memory [OF sample_boots sample_reachable] by metis
  then show "\<exists>m. st sample_after = InMemory m \<and> mem_inv m \<and> byEventID m ''ev-1'' = Some sample_record \<and>
      records m = [sample_record] \<and> checkpoints m = Map.empty"
    by (auto simp: sample_after_eq)
  show "Period (now sample_world - RetentionWindow (sample_config [])) = ''2023-12-01''"
    using Period_cutoff by (simp add: sample_config_def)
qed (simp_all add: sample_record_def sample_envelope_def sample_world_def)

theorem freshly_sealed_period_verifies_witness:
  "verifyPeriod sample_app ''2024-05'' sample_swept =
     (Reply StatusOK (VerifyBody \<lparr>v_Scope = ''period'', v_Target = ''2024-05-01'', v_Checked = 1, v_OK = True,
        v_Mismatches = []\<rparr>), sample_swept)"
proof -
  obtain m where m: "st sample_after = InMemory m" "byEventID m ''ev-1'' = Some sample_record" "records m = [sample_record]"
      "checkpoints m = Map.empty" using sample_facts(1) by blast
  have "common_era (OccurredAt (Envelope sample_record))" "checkpoints m (row_period sample_record) = None"
      "row_period sample_record < Period (now ((\<lambda>i :: nat. sample_world) 0))"
      "Period (now ((\<lambda>i :: nat. sample_world) 0) - RetentionWindow (sample_config [])) \<le> row_period sample_record"
    by (simp_all add: sample_facts(2-5) m(4) common_era_samples)
  from freshly_sealed_period_verifies [where clk = "\<lambda>i. sample_world", OF sample_boots sample_reachable m(1,2) this]
  show ?thesis by (simp add: sample_facts(2) m(3) sample_swept_def Let_def)
qed

theorem verify_period_detects_witness:
  "\<exists>v y'. verifyPeriod sample_app ''2024-05'' sample_swept = (Reply StatusOK (VerifyBody v), y') \<and> v_OK v"
proof -
  obtain m where m: "st sample_after = InMemory m" "mem_inv m" "byEventID m ''ev-1'' = Some sample_record"
      "records m = [sample_record]" "checkpoints m = Map.empty" using sample_facts(1) by blast
  have h: "checkpoints m (row_period sample_record) = None"
      "row_period sample_record < Period (now ((\<lambda>i :: nat. sample_world) 0))"
      "Period (now ((\<lambda>i :: nat. sample_world) 0) - RetentionWindow (sample_config [])) \<le> row_period sample_record"
    by (simp_all add: sample_facts(2-5) m(5))
  obtain m' cp where m': "st sample_swept = InMemory m'" "mem_inv m'" "checkpoints m' ''2024-05-01'' = Some cp"
    "CpSeal cp = Checkpoint (app_sealer sample_app) (spec_seals ''2024-05-01'' (mem_abs m'))
       (int (length (spec_seals ''2024-05-01'' (mem_abs m'))))"
    using freshly_sealed [where clk = "\<lambda>i. sample_world", OF sample_boots m(1-3) h] unfolding sample_facts(2) sample_swept_def by metis
  have "normalizePeriod ''2024-05'' = Some ''2024-05-01''"
    using normalizePeriod_Period(2) [OF common_era_samples(2)] by simp
  moreover have "\<forall>x \<in> set (spec_seals ''2024-05-01'' (mem_abs m')). list_all is_hex x"
    using stored_seals_hex [OF m'(2)] reachable_memory [OF sample_boots sample_swept_reachable] m'(1) by (metis backend.inject(1))
  ultimately obtain ys v y' where "fst (mem_SealsForPeriod ''2024-05-01'' m') = Inr (ys, int (length ys))"
      "verifyPeriod sample_app ''2024-05'' sample_swept = (Reply StatusOK (VerifyBody v), y')"
      "v_OK v \<longleftrightarrow> (ys = spec_seals ''2024-05-01'' (mem_abs m') \<and> int (length ys) = int (length (spec_seals ''2024-05-01'' (mem_abs m')))) \<or>
       mac_collision (key (app_sealer sample_app)) (checkpoint_bytes ys (int (length ys)))
         (checkpoint_bytes (spec_seals ''2024-05-01'' (mem_abs m')) (int (length (spec_seals ''2024-05-01'' (mem_abs m')))))"
    using verify_period_detects [OF sample_boots sample_swept_reachable m'(1) _ m'(3,4)] by blast
  then show ?thesis using mem_SealsForPeriod_spec [OF m'(2), of "''2024-05-01''"] by auto
qed

text \<open>C33: verifying a subject on such a service answers that all is intact and raises no alarm, but
  it checks at most the first 10000 of the subject's records.\<close>

theorem verify_subject_checks_a_prefix:
  assumes "boots_on_memory sv cfg b" and "reachable (bt_app b) (bt_sys b) y" and "st y = InMemory m"
  shows "verifySubject (bt_app b) subject y =
    (Reply StatusOK (VerifyBody \<lparr>v_Scope = ''subject'', v_Target = subject,
       v_Checked = min 10000 (int (length (filter (\<lambda>r. subject \<in> set (DataSubjects (Envelope r))) (records m)))),
       v_OK = True, v_Mismatches = []\<rparr>), y)"
proof -
  obtain sealer mw where c: "bt_app b = container sv cfg sealer mw"
    using boots_on_memory_cases [OF assms(1)] by metis
  obtain m0 where "st y = InMemory m0" "on_memory (st y)" "sound_log (bt_app b) (mem_abs m0)"
    using reachable_memory [OF assms(1,2)] by metis
  then have m: "on_memory (st y)" "sound_log (bt_app b) (log_of (st y))" by simp_all
  define out where "out = sort_key (\<lambda>r. (OccurredAt (Envelope r), Seq r)) (subject_scan subject 0 0 (records m))"
  define rs where "rs = take 10000 out"
  have y: "y\<lparr>st := InMemory m\<rparr> = y" using assms(3) by (cases y) simp
  have read: "on_store (BySubject (app_store (bt_app b)) subject 0 0 10000) y = (Inr rs, y)"
    using assms(3) y by (simp add: c on_store_def dispatch_store_def mem_BySubject_def Let_def rs_def out_def)
  have "\<forall>r \<in> set rs. verifies (bt_app b) r"
    using svc.subject_read_verifies [OF m(1) m(2) [unfolded c]] read unfolding c container_simps by blast
  then have "mismatches (bt_app b) rs = []" by (simp add: mismatches_eq filter_empty_conv)
  moreover have "int (length rs) = min 10000 (int (length (filter (\<lambda>r. subject \<in> set (DataSubjects (Envelope r))) (records m))))"
    by (simp add: rs_def out_def subject_scan_filter IsZero_def min.commute)
  ultimately show ?thesis unfolding verifySubject_def read by simp
qed

theorem verify_subject_checks_a_prefix_witness:
  "\<exists>v. verifySubject sample_app ''usr_1'' sample_after = (Reply StatusOK (VerifyBody v), sample_after) \<and> v_Checked v = 1 \<and> v_OK v"
proof -
  obtain m where m: "st sample_after = InMemory m" "records m = [sample_record]" using sample_facts(1) by blast
  from verify_subject_checks_a_prefix [OF sample_boots sample_reachable m(1), of "''usr_1''"] show ?thesis
    by (simp add: m(2) sample_record_def sample_envelope_def)
qed

section \<open>Where checkpoints raise false alarms\<close>

text \<open>The number of rows of a period is part of what its checkpoint attests, so whatever changes it
  makes the checkpoint fail.\<close>

definition seals_are_hex :: "('a, 'r) Memory \<Rightarrow> bool" where
  "seals_are_hex m \<longleftrightarrow> (\<forall>r \<in> set (records m). list_all is_hex (RowSeal r))"

lemma period_seals:
  "mem_SealsForPeriod p m = (Inr (xs, n), m') \<Longrightarrow>
     n = int (length (filter (\<lambda>r. row_period r = p) (records m))) \<and> set xs \<subseteq> RowSeal ` set (records m)"
  by (auto simp: mem_SealsForPeriod_def Let_def)

lemma mem_seals_total: "\<exists>xs n. mem_SealsForPeriod p m = (Inr (xs, n), m)"
  by (simp add: mem_SealsForPeriod_def Let_def)

lemma count_mismatch:
  assumes "mem_SealsForPeriod p m = (Inr (xs, n), m1)" and "mem_SealsForPeriod p m' = (Inr (ys, n'), m2)"
    and "seals_are_hex m" and "seals_are_hex m'"
    and "length (filter (\<lambda>r. row_period r = p) (records m')) \<noteq> length (filter (\<lambda>r. row_period r = p) (records m))"
  shows "VerifyCheckpoint s ys n' (Checkpoint s xs n) \<longleftrightarrow> mac_collision (key s) (checkpoint_bytes ys n') (checkpoint_bytes xs n)"
proof -
  have "\<forall>x \<in> set xs \<union> set ys. no_newline x"
    using period_seals [OF assms(1)] period_seals [OF assms(2)] assms(3,4) hex_no_newline
    by (fastforce simp: seals_are_hex_def)
  moreover have "n' \<noteq> n" using period_seals [OF assms(1)] period_seals [OF assms(2)] assms(5) by simp
  ultimately show ?thesis by (simp add: VerifyCheckpoint_iff)
qed

text \<open>C34: the store accepts a new record into a period that already has its checkpoint. It answers as
  for any new record and keeps the checkpoint, which verified until then; from then on the
  checkpoint does not verify (unless the MAC collides): a late but legitimate record is reported
  as tampering.\<close>

theorem late_record_breaks_checkpoint:
  assumes "byEventID m (event_id r) = None" and "row_period r = p" and "checkpoints m p = Some cp"
    and "mem_SealsForPeriod p m = (Inr (xs, n), m)" and "CpSeal cp = Checkpoint s xs n"
    and "seals_are_hex m" and "list_all is_hex (RowSeal r)"
  shows "\<exists>res m' ys n'. mem_Append w r m = (Inr res, m') \<and> \<not> Duplicate res \<and> byEventID m' (event_id r) \<noteq> None \<and>
    mem_SealsForPeriod p m' = (Inr (ys, n'), m') \<and> n' = n + 1 \<and> checkpoints m' p = Some cp \<and>
    VerifyCheckpoint s xs n (CpSeal cp) \<and>
    (VerifyCheckpoint s ys n' (CpSeal cp) \<longleftrightarrow> mac_collision (key s) (checkpoint_bytes ys n') (checkpoint_bytes xs n))"
proof -
  obtain res m' c where a: "mem_Append w r m = (Inr res, m')" "\<not> Duplicate res" "byEventID m' (event_id r) \<noteq> None"
      "checkpoints m' = checkpoints m" "records m' = records m @ [c]" "Envelope c = Envelope r" "RowSeal c = RowSeal r"
    using assms(1) by (simp add: mem_Append_def Let_def)
  obtain ys n' where ys: "mem_SealsForPeriod p m' = (Inr (ys, n'), m')" using mem_seals_total by blast
  have "seals_are_hex m'" using assms(6,7) a by (auto simp: seals_are_hex_def)
  then have "VerifyCheckpoint s ys n' (Checkpoint s xs n) \<longleftrightarrow> mac_collision (key s) (checkpoint_bytes ys n') (checkpoint_bytes xs n)"
    using count_mismatch [OF assms(4) ys assms(6), of s] a assms(2) by simp
  moreover have "n' = n + 1" using period_seals [OF assms(4)] period_seals [OF ys] a assms(2) by simp
  moreover have "VerifyCheckpoint s xs n (Checkpoint s xs n)" by (simp add: VerifyCheckpoint_def)
  ultimately show ?thesis using a(1-4) ys assms(3,5) by auto
qed

lemma sample_hex: "seals_are_hex sample_memory" "list_all is_hex (RowSeal (sample_row k t))"
  by (simp_all add: seals_are_hex_def sample_memory_eq Let_def row1_def row2_def sample_row_def is_hex_def is_digit_def)

lemma sample_period_seals:
  "mem_SealsForPeriod ''2024-05-01'' sample_memory = (Inr ([''00''], 1), sample_memory)"
  "mem_SealsForPeriod ''2023-01-01'' sample_memory = (Inr ([''00''], 1), sample_memory)"
  by (simp_all add: mem_SealsForPeriod_def sample_memory_eq Let_def) (simp_all add: row1_def row2_def sample_row_def)

definition sample_checkpoint :: checkpoint where
  "sample_checkpoint = \<lparr>CpPeriod = ''2024-05-01'', RowCount = 1, CpSeal = Checkpoint sample_sealer [''00''] 1, SealedAt = 1\<rparr>"

theorem late_record_breaks_checkpoint_witness:
  "\<exists>m m' ys. m = snd (mem_SaveCheckpoint sample_world sample_checkpoint sample_memory) \<and>
     checkpoints m ''2024-05-01'' = Some sample_checkpoint \<and>
     snd (mem_Append sample_world (sample_row ''e3'' (Date 2024 5 17)) m) = m' \<and> byEventID m' ''e3'' \<noteq> None \<and>
     mem_SealsForPeriod ''2024-05-01'' m' = (Inr (ys, 2), m') \<and>
     (VerifyCheckpoint sample_sealer ys 2 (CpSeal sample_checkpoint) \<longleftrightarrow>
        mac_collision (key sample_sealer) (checkpoint_bytes ys 2) (checkpoint_bytes [''00''] 1))"
proof -
  let ?r = "sample_row ''e3'' (Date 2024 5 17)"
  let ?m = "snd (mem_SaveCheckpoint sample_world sample_checkpoint sample_memory)"
  have m: "byEventID ?m = byEventID sample_memory" "records ?m = records sample_memory"
      "checkpoints ?m ''2024-05-01'' = Some sample_checkpoint"
    by (simp_all add: mem_SaveCheckpoint_def sample_checkpoint_def sample_memory_eq Let_def IsZero_def)
  have a: "byEventID ?m (event_id ?r) = None" by (simp add: m(1)) (simp add: sample_memory_eq Let_def sample_row_def)
  have p: "row_period ?r = ''2024-05-01''" by (simp add: sample_row_def)
  have q: "mem_SealsForPeriod ''2024-05-01'' ?m = (Inr ([''00''], 1), ?m)"
    using sample_period_seals(1) by (simp add: mem_SealsForPeriod_def Let_def m(2))
  have h: "seals_are_hex ?m" using sample_hex(1) by (simp add: seals_are_hex_def m(2))
  have c: "CpSeal sample_checkpoint = Checkpoint sample_sealer [''00''] 1" by (simp add: sample_checkpoint_def)
  from late_record_breaks_checkpoint [OF a p m(3) q c h sample_hex(2), of sample_world] m(3) show ?thesis
    by (fastforce simp: sample_row_def)
qed

text \<open>C35: a purge that removes some row of a sealed period, because it is expired and only other rows
  are held, leaves the checkpoint behind, and from then on it does not verify (unless the MAC
  collides): lawful retention is reported as tampering.\<close>

theorem purge_breaks_checkpoint:
  assumes "mem_PurgeExpired cutoff m = (Inr res, m')" and "r \<in> set (records m)" and "row_period r = p" and "p < cutoff"
    and "\<not> heldLocked (holds m) (DataSubjects (Envelope r))"
    and "mem_SealsForPeriod p m = (Inr (xs, n), m)" and "mem_SealsForPeriod p m' = (Inr (ys, n'), m')" and "seals_are_hex m"
  shows "checkpoints m' = checkpoints m \<and>
    (VerifyCheckpoint s ys n' (Checkpoint s xs n) \<longleftrightarrow> mac_collision (key s) (checkpoint_bytes ys n') (checkpoint_bytes xs n))"
proof -
  have m': "records m' = filter (row_kept (holds m) cutoff) (records m)" "checkpoints m' = checkpoints m"
    using assms(1) by (auto simp: mem_PurgeExpired_def purge_scan_eq)
  have "seals_are_hex m'" using assms(8) m' by (auto simp: seals_are_hex_def)
  moreover have "length (filter (\<lambda>r. row_period r = p) (records m')) < length (filter (\<lambda>r. row_period r = p) (records m))"
  proof -
    have "r \<in> set (filter (\<lambda>r. row_period r = p) (records m))" "\<not> row_kept (holds m) cutoff r"
      using assms(2-5) by (auto simp: row_kept_def)
    then have "length (filter (row_kept (holds m) cutoff) (filter (\<lambda>r. row_period r = p) (records m))) <
        length (filter (\<lambda>r. row_period r = p) (records m))"
      by (intro length_filter_less)
    then show ?thesis by (simp add: m' conj_commute)
  qed
  ultimately show ?thesis using count_mismatch [OF assms(6-8), of s] m'(2) by simp
qed

theorem purge_breaks_checkpoint_witness:
  "\<exists>m' ys n'. m' = snd (mem_PurgeExpired ''2024-01-01'' sample_memory) \<and>
     mem_SealsForPeriod ''2023-01-01'' m' = (Inr (ys, n'), m') \<and>
     (VerifyCheckpoint sample_sealer ys n' (Checkpoint sample_sealer [''00''] 1) \<longleftrightarrow>
        mac_collision (key sample_sealer) (checkpoint_bytes ys n') (checkpoint_bytes [''00''] 1))"
proof -
  let ?m' = "snd (mem_PurgeExpired ''2024-01-01'' sample_memory)"
  obtain res where p: "mem_PurgeExpired ''2024-01-01'' sample_memory = (Inr res, ?m')" using mem_ops_total(1) by blast
  obtain ys n' where ys: "mem_SealsForPeriod ''2023-01-01'' ?m' = (Inr (ys, n'), ?m')" using mem_seals_total by blast
  let ?r = "row1\<lparr>RowID := ''01J'', Seq := 1\<rparr>"
  have "?r \<in> set (records sample_memory)" "row_period ?r = ''2023-01-01''" "''2023-01-01'' < (''2024-01-01'' :: string)"
      "\<not> heldLocked (holds sample_memory) (DataSubjects (Envelope ?r))"
    by (simp_all add: sample_memory_eq Let_def)
  from purge_breaks_checkpoint [OF p this sample_period_seals(2) ys sample_hex(1)] show ?thesis using ys by auto
qed

text \<open>C39: periods order chronologically up to the year 9999 only. A record of the years 10000 to 19999
  (which a timestamp of the year 9999 with a negative offset reaches) has a period that precedes
  the one of every instant of the years 2000 to 9999, so a purge with the cutoff of any such instant
  deletes it as expired although it occurred later, unless one of its subjects is under a hold.\<close>

theorem far_future_counts_as_expired:
  assumes "mem_inv m" and "byEventID m k = Some r" and "\<not> heldLocked (holds m) (DataSubjects (Envelope r))"
    and "10000 \<le> year_of (OccurredAt (Envelope r))" and "year_of (OccurredAt (Envelope r)) < 20000"
    and "2000 \<le> year_of c" and "year_of c \<le> 9999" and "mem_PurgeExpired (Period c) m = (Inr res, m')"
  shows "c < OccurredAt (Envelope r) \<and> row_period r < Period c \<and> byEventID m' k = None"
proof -
  have p: "row_period r < Period c" using Period_far_future assms(4-7) by blast
  have "\<not> OccurredAt (Envelope r) \<le> c" using DateOf_mono [of "OccurredAt (Envelope r)" c] assms(4,7) by auto
  moreover have "log (mem_abs m') k = log (spec_purge (Period c) (mem_abs m)) k" using mem_Purge_law [OF assms(1,8)] by simp
  moreover have "\<not> Period c \<le> row_period r" using p by (simp only: not_le)
  ultimately show ?thesis
    using p assms(2,3) by (simp add: spec_purge_def survives_def entry_held_def heldLocked_iff)
qed

theorem far_future_counts_as_expired_witness:
  "\<exists>m. m = snd (mem_Append sample_world (sample_row ''e9'' (Date 10000 1 1)) NewMemory) \<and> byEventID m ''e9'' \<noteq> None \<and>
     byEventID (snd (mem_PurgeExpired (Period (Date 2024 5 17)) m)) ''e9'' = None"
proof -
  let ?r = "sample_row ''e9'' (Date 10000 1 1)"
  let ?m = "snd (mem_Append sample_world ?r NewMemory)"
  have d: "DateOf (Date 10000 1 1) = (10000, 1, 1)"
    by (intro DateOf_Date) (simp_all add: days_in_def days_before_month_def is_leap_def)
  have inv: "mem_inv ?m" using mem_Append_law [OF mem_inv_NewMemory prod.collapse [symmetric]] by blast
  obtain r where r: "byEventID ?m ''e9'' = Some r" "Envelope r = Envelope ?r" "holds ?m = Map.empty"
    by (simp add: mem_Append_def NewMemory_def Let_def sample_row_def)
  have h: "\<not> heldLocked (holds ?m) (DataSubjects (Envelope r))" by (simp add: r(3) heldLocked_iff)
  have o: "OccurredAt (Envelope r) = Date 10000 1 1" by (simp add: r(2) sample_row_def)
  have y: "10000 \<le> year_of (OccurredAt (Envelope r))" "year_of (OccurredAt (Envelope r)) < 20000"
    unfolding o d by simp_all
  have c: "2000 \<le> year_of (Date 2024 5 17)" "year_of (Date 2024 5 17) \<le> 9999" by simp_all
  obtain res where p: "mem_PurgeExpired (Period (Date 2024 5 17)) ?m = (Inr res, snd (mem_PurgeExpired (Period (Date 2024 5 17)) ?m))"
    using mem_ops_total(1) by blast
  from far_future_counts_as_expired [OF inv r(1) h y c p] r(1) show ?thesis by simp
qed

section \<open>Governance\<close>

text \<open>C30: the manual purge of such a service removes exactly the unheld rows before the cutoff and
  reports the purge with a severity of at least a warning when something was retained under hold.
  It writes no checkpoint, so it also removes rows of periods that were never sealed.\<close>

theorem manual_purge_exact:
  assumes "boots_on_memory sv cfg b" and "st y = InMemory m"
    and "HasScopeLevel (User ctx) ''access-audit'' ''admin''"
  shows "\<exists>m' res. purge (bt_app b) w ctx y =
      (Reply StatusOK (PurgeBody res),
       \<lparr>st = InMemory m', tel = Emit (app_events (bt_app b)) Background EventRetentionPurge
          (if 0 < pr_RetainedUnderHold res then SeverityWarning else SeverityInfo) OutcomeSuccess
          [(''cutoff'', AStr (pr_Cutoff res)), (''purged'', AInt (pr_Purged res)),
           (''retained_under_hold'', AInt (pr_RetainedUnderHold res))] (tel y), logs = logs y\<rparr>) \<and>
    pr_Cutoff res = Period (now w - RetentionWindow cfg) \<and>
    records m' = filter (\<lambda>r. pr_Cutoff res \<le> row_period r \<or> heldLocked (holds m) (DataSubjects (Envelope r))) (records m) \<and>
    pr_Purged res = int (length (records m)) - int (length (records m')) \<and>
    checkpoints m' = checkpoints m \<and> holds m' = holds m"
proof -
  obtain sealer mw where c: "bt_app b = container sv cfg sealer mw"
    using boots_on_memory_cases [OF assms(1)] by metis
  let ?cut = "Period (now w - RetentionWindow cfg)"
  obtain m' res where p: "mem_PurgeExpired ?cut m = (Inr res, m')"
    and f: "records m' = filter (row_kept (holds m) ?cut) (records m)" "checkpoints m' = checkpoints m" "holds m' = holds m"
      "Purged res = int (length (filter (\<lambda>r. \<not> row_kept (holds m) ?cut r) (records m)))" "Cutoff res = ?cut"
    by (simp add: mem_PurgeExpired_def purge_scan_eq)
  have "Purged res = int (length (records m)) - int (length (records m'))"
    using f(1,4) length_filter_split [of "records m" "row_kept (holds m) ?cut"] by simp
  moreover have "purge (bt_app b) w ctx y = (Reply StatusOK (PurgeBody \<lparr>pr_Cutoff = Cutoff res, pr_Purged = Purged res,
      pr_RetainedUnderHold = RetainedUnderHold res\<rparr>), on_tel (RetentionPurge (app_events (bt_app b)) (Cutoff res) (Purged res)
      (RetainedUnderHold res)) (y\<lparr>st := InMemory m'\<rparr>))"
    using assms(2,3) p by (simp add: c purge_def requireScope_def on_store_def dispatch_store_def Let_def)
  ultimately show ?thesis
    using f by (intro exI [of _ m'] exI) (auto simp: on_tel_def RetentionPurge_def Let_def row_kept_def [abs_def])
qed

theorem manual_purge_exact_witness:
  "\<exists>m' res. purge sample_app sample_world (sample_caller ''access-audit:admin'') sample_after =
       (Reply StatusOK (PurgeBody res), m') \<and> pr_Purged res = 0 \<and> pr_Cutoff res = ''2023-12-01''"
proof -
  obtain m where m: "st sample_after = InMemory m" "records m = [sample_record]" using sample_facts(1) by blast
  have "HasScopeLevel (User (sample_caller ''access-audit:admin'')) ''access-audit'' ''admin''" by simp
  from manual_purge_exact [OF sample_boots m(1) this, of sample_world] show ?thesis
    by (auto simp: sample_facts(2,5) m(2))
qed

text \<open>C20: a hold placed through the endpoint protects its subject until it is cleared. The placement
  answers with the subject, and is reported as a security event with the caller's name. In whatever
  the service does afterwards, as long as no request clears the hold of that subject (other
  requests, manual purges and the store calls of sweeps among them), the hold stays, and every
  record of the subject that is there at some point is there, unchanged, at every later one.\<close>

theorem legal_hold_protects:
  assumes "boots_on_memory sv cfg b" and "concurrent (bt_app b) (bt_sys b) h (q, y)"
    and "HasScopeLevel (User ctx) ''access-audit'' ''admin''" and "Body_LegalHold (sv_framework sv) ctx = Inr req"
    and "placeLegalHold (bt_app b) w ctx y = (res, y1)"
    and "unreleased (bt_app b) (Subject req) (q, y1) (q2, y2)" and "unreleased (bt_app b) (Subject req) (q2, y2) (q3, y3)"
  shows "res = Reply StatusOK (LegalHoldBody \<lparr>lh_Subject = Subject req, lh_Hold = True\<rparr>) \<and>
    tel y1 = LegalHoldChanged (app_events (bt_app b)) (Subject req) True (user_ID (User ctx)) (tel y) \<and>
    (\<exists>m2 m3. st y2 = InMemory m2 \<and> st y3 = InMemory m3 \<and> holds m3 (Subject req) = Some True \<and>
      (\<forall>k r. byEventID m2 k = Some r \<longrightarrow> Subject req \<in> set (DataSubjects (Envelope r)) \<longrightarrow>
         (\<exists>r'. byEventID m3 k = Some r' \<and> entry_of r' = entry_of r)))"
proof -
  obtain sealer mw where c: "bt_app b = container sv cfg sealer mw"
    using boots_on_memory_cases [OF assms(1)] by metis
  obtain m where m: "st y = InMemory m" "mem_inv m" using concurrent_memory [OF assms(1,2)] by metis
  have p: "res = Reply StatusOK (LegalHoldBody \<lparr>lh_Subject = Subject req, lh_Hold = True\<rparr>)"
      "tel y1 = LegalHoldChanged (app_events (bt_app b)) (Subject req) True (user_ID (User ctx)) (tel y)"
      "st y1 = InMemory (m\<lparr>holds := (holds m)(Subject req \<mapsto> True)\<rparr>)"
    using assms(3-5) m(1)
    by (auto simp: c placeLegalHold_def requireScope_def on_store_def on_tel_def dispatch_store_def mem_SetLegalHold_def)
  then have y1: "on_memory (st y1)" "Subject req \<in> held (log_of (st y1))" using m(2) by (simp_all add: mem_inv_def)
  have y2: "on_memory (st y2)" "Subject req \<in> held (log_of (st y2))"
    using svc.unreleased_keeps [OF assms(6) [unfolded c]] y1 by (auto simp: keeps_subject_def)
  have y3: "on_memory (st y3)" "keeps_subject (Subject req) (log_of (st y2)) (log_of (st y3))"
    using svc.unreleased_keeps [OF assms(7) [unfolded c]] y2 by auto
  obtain m2 m3 where "st y2 = InMemory m2" "st y3 = InMemory m3" using y2(1) y3(1) by (metis on_memory_cases)
  with y3(2) p(1,2) show ?thesis by (fastforce simp: keeps_subject_def)
qed

lemma unreleased_alone:
  "alone (app_task a) t c c' \<Longrightarrow> unreleased a s c0 (Some (t, fst c), snd c) \<Longrightarrow> unreleased a s c0 (Some (t, fst c'), snd c')"
proof (induction rule: alone.induct)
  case (call w pc y c c')
  show ?case
  proof (cases "pc = Finished")
    case False
    then show ?thesis using call unreleased.call [of a s c0 t pc y w "fst c" "snd c"] by simp
  qed (use call in auto)
qed simp

theorem legal_hold_protects_witness:
  "\<exists>y1 m3 r'. snd (placeLegalHold sample_app sample_world (sample_caller ''access-audit:admin'') sample_after) = y1 \<and>
     st (runOnce (app_task sample_app) (\<lambda>i. late_world) y1) = InMemory m3 \<and>
     byEventID m3 ''ev-1'' = Some r' \<and> entry_of r' = entry_of sample_record"
proof -
  let ?ctx = "sample_caller ''access-audit:admin''"
  let ?p = "placeLegalHold sample_app sample_world ?ctx sample_after"
  let ?t = "now late_world"
  have a: "HasScopeLevel (User ?ctx) ''access-audit'' ''admin''" by simp
  have b: "Body_LegalHold (sv_framework (sample_services [])) ?ctx = Inr \<lparr>Subject = ''usr_1'', Reason = []\<rparr>"
    by (simp add: Body_LegalHold_def LegalHold_Validate_def sample_services_simps sample_framework_def)
  have c: "concurrent sample_app (bt_sys sample_booted) [sample_after, bt_sys sample_booted] (None, sample_after)"
    using concurrent.next_turn [OF concurrent.boot sample_turn] by simp
  have "alone (app_task sample_app) ?t (Listing, snd ?p) (Finished, runOnce (app_task sample_app) (\<lambda>i. late_world) (snd ?p))"
    unfolding runOnce_after_sealing
    by (rule alone_trans [OF alone_seal_pending [where clk = "\<lambda>i. late_world"] alone_after_sealing])
  from unreleased_alone [OF this, of "''usr_1''" "(None, snd ?p)"]
  have u: "unreleased sample_app (Subject \<lparr>Subject = ''usr_1'', Reason = []\<rparr>) (None, snd ?p) (Some (?t, Finished), runOnce (app_task sample_app) (\<lambda>i. late_world) (snd ?p))"
    using unreleased.start [OF unreleased.here, of sample_app "''usr_1''"] by simp
  have s: "st (snd ?p) = InMemory (m\<lparr>holds := (holds m)(''usr_1'' \<mapsto> True)\<rparr>)" if "st sample_after = InMemory m" for m
    using that b by (simp add: sample_services_simps placeLegalHold_def requireScope_def on_store_def on_tel_def dispatch_store_def mem_SetLegalHold_def)
  obtain m2 m3 where m: "st (snd ?p) = InMemory m2" "st (runOnce (app_task sample_app) (\<lambda>i. late_world) (snd ?p)) = InMemory m3"
    and k: "\<forall>k r. byEventID m2 k = Some r \<longrightarrow> ''usr_1'' \<in> set (DataSubjects (Envelope r)) \<longrightarrow>
         (\<exists>r'. byEventID m3 k = Some r' \<and> entry_of r' = entry_of r)"
    using legal_hold_protects [OF sample_boots c a b prod.collapse [symmetric] unreleased.here u] by auto
  have "byEventID m2 ''ev-1'' = Some sample_record" using m(1) s by (auto simp: sample_after_eq)
  moreover have "''usr_1'' \<in> set (DataSubjects (Envelope sample_record))" by (simp add: sample_record_def sample_envelope_def)
  ultimately show ?thesis using k m(2) by blast
qed

text \<open>C21: clearing a hold through the endpoint releases exactly that subject, and is reported as a
  security event with the caller's name: every other hold and everything stored stays, and the next
  purge deletes the expired rows that no other hold covers.\<close>

theorem cleared_hold_releases:
  assumes "boots_on_memory sv cfg b" and "concurrent (bt_app b) (bt_sys b) h (q, y)"
    and "HasScopeLevel (User ctx) ''access-audit'' ''admin''" and "Params ctx ''subject'' \<noteq> []"
    and "clearLegalHold (bt_app b) w ctx y = (res, y1)" and "purge (bt_app b) w' ctx y1 = (res', y2)"
  shows "res = Reply StatusOK (LegalHoldBody \<lparr>lh_Subject = Params ctx ''subject'', lh_Hold = False\<rparr>) \<and>
    tel y1 = LegalHoldChanged (app_events (bt_app b)) (Params ctx ''subject'') False (user_ID (User ctx)) (tel y) \<and>
    (\<exists>m m2. st y = InMemory m \<and> st y1 = InMemory (m\<lparr>holds := (holds m)(Params ctx ''subject'' := None)\<rparr>) \<and>
      st y2 = InMemory m2 \<and>
      (\<forall>r. r \<in> set (records m2) \<longleftrightarrow> r \<in> set (records m) \<and>
         (Period (now w' - RetentionWindow cfg) \<le> row_period r \<or>
          (\<exists>s \<in> set (DataSubjects (Envelope r)). s \<noteq> Params ctx ''subject'' \<and> holds m s = Some True))))"
proof -
  obtain sealer mw where c: "bt_app b = container sv cfg sealer mw"
    using boots_on_memory_cases [OF assms(1)] by metis
  obtain m where m: "st y = InMemory m" using concurrent_memory [OF assms(1,2)] by metis
  let ?m = "m\<lparr>holds := (holds m)(Params ctx ''subject'' := None)\<rparr>"
  have p: "res = Reply StatusOK (LegalHoldBody \<lparr>lh_Subject = Params ctx ''subject'', lh_Hold = False\<rparr>)"
      "tel y1 = LegalHoldChanged (app_events (bt_app b)) (Params ctx ''subject'') False (user_ID (User ctx)) (tel y)"
      "st y1 = InMemory ?m"
    using assms(3-5) m
    by (auto simp: c clearLegalHold_def requireScope_def on_store_def on_tel_def dispatch_store_def mem_SetLegalHold_def Let_def)
  have "st y2 = InMemory (snd (mem_PurgeExpired (Period (now w' - RetentionWindow cfg)) ?m))"
    using assms(3,6) p(3)
    by (auto simp: c purge_def requireScope_def on_store_def dispatch_store_def Let_def mem_PurgeExpired_def on_tel_def split: prod.splits)
  moreover have "records (snd (mem_PurgeExpired (Period (now w' - RetentionWindow cfg)) ?m)) =
      filter (row_kept (holds ?m) (Period (now w' - RetentionWindow cfg))) (records m)"
    by (simp add: mem_PurgeExpired_def purge_scan_eq)
  ultimately show ?thesis using p m by (fastforce simp: row_kept_def heldLocked_iff)
qed

theorem cleared_hold_releases_witness:
  "\<exists>m2. st (snd (purge sample_app late_world (sample_caller ''access-audit:admin'')
       (snd (clearLegalHold sample_app sample_world (sample_caller ''access-audit:admin'')
         (snd (placeLegalHold sample_app sample_world (sample_caller ''access-audit:admin'') sample_after)))))) = InMemory m2 \<and>
     records m2 = []"
proof -
  let ?ctx = "sample_caller ''access-audit:admin''"
  let ?p = "placeLegalHold sample_app sample_world ?ctx sample_after"
  let ?c = "clearLegalHold sample_app sample_world ?ctx (snd ?p)"
  have a: "HasScopeLevel (User ?ctx) ''access-audit'' ''admin''" by simp
  have sv: "serve (v1 POST ''/legal-holds'' placeLegalHold) sample_app sample_world
      (sample_ctx ''access-audit:admin'' sample_envelope) sample_after = (fst ?p, snd ?p)"
    by (simp add: serve_def v1_def sample_auth)
  have "turn sample_app (now sample_world) (None, sample_after) (None, snd ?p)"
    by (rule turn.request [OF _ sv]) (simp add: Init_def)
  from concurrent.next_turn [OF concurrent.next_turn [OF concurrent.boot sample_turn] this]
  obtain h where h: "concurrent sample_app (bt_sys sample_booted) h (None, snd ?p)" by blast
  have b: "Body_LegalHold sample_framework ?ctx = Inr \<lparr>Subject = ''usr_1'', Reason = []\<rparr>"
    by (simp add: Body_LegalHold_def LegalHold_Validate_def) (simp add: sample_framework_def)
  obtain m0 where m0: "st sample_after = InMemory m0" "records m0 = [sample_record]" "holds m0 = Map.empty"
    by (simp add: sample_after_eq)
  have hold: "st (snd ?p) = InMemory (m0\<lparr>holds := (holds m0)(''usr_1'' \<mapsto> True)\<rparr>)"
    using m0(1) b by (simp add: placeLegalHold_def requireScope_def on_store_def on_tel_def dispatch_store_def mem_SetLegalHold_def)
  have w: "RetentionWindow (sample_config []) = 365 * 24 * hour_ns" by (simp add: sample_config_def)
  have old: "row_period sample_record < Period (now late_world - RetentionWindow (sample_config []))"
    unfolding w late_window by (simp add: sample_record_def sample_envelope_def)
  have n: "Params ?ctx ''subject'' \<noteq> []" by simp
  obtain m m2 where m: "st (snd ?p) = InMemory m" "st (snd (purge sample_app late_world ?ctx (snd ?c))) = InMemory m2"
    and r: "\<forall>r. r \<in> set (records m2) \<longleftrightarrow> r \<in> set (records m) \<and>
         (Period (now late_world - RetentionWindow (sample_config [])) \<le> row_period r \<or>
          (\<exists>s \<in> set (DataSubjects (Envelope r)). s \<noteq> Params ?ctx ''subject'' \<and> holds m s = Some True))"
    using cleared_hold_releases [OF sample_boots h a n prod.collapse [symmetric] prod.collapse [symmetric]] by blast
  have "records m = [sample_record]" "\<forall>s. s \<noteq> ''usr_1'' \<longrightarrow> holds m s \<noteq> Some True" using m(1) hold m0(2,3) by auto
  moreover have "\<not> Period (now late_world - RetentionWindow (sample_config [])) \<le> row_period sample_record"
    using old by (simp only: not_le)
  moreover have "Params ?ctx ''subject'' = ''usr_1''" by simp
  ultimately have "x \<notin> set (records m2)" for x
    using r by (metis empty_iff empty_set set_ConsD)
  then have "records m2 = []" by (cases "records m2") auto
  with m(2) show ?thesis by auto
qed

text \<open>C29: an evidence event is stored with the authenticated caller as its source, never a name from
  the body, and with the request's time or, without one, the clock's; the access log is untouched.\<close>

theorem evidence_recorded_for_caller:
  assumes "boots_on_memory sv cfg b" and "st y = InMemory m" and "HasScopeLevel (User ctx) ''verify-audit'' ''write''"
    and "BodyVerifyEvent ctx = Inr req" and "req_Verdict req \<noteq> []"
    and "(if req_TS req \<noteq> [] then parse_rfc3339 (req_TS req) else Some (now w)) = Some ts"
  shows "\<exists>ev. recordVerifyEvent (bt_app b) w ctx y =
      (Reply StatusCreated (EventIdBody (ulid w)), y\<lparr>st := InMemory (m\<lparr>verifyEvents := verifyEvents m @ [ev]\<rparr>)\<rparr>) \<and>
    TS ev = ts \<and> EvSourceService ev = user_ID (User ctx) \<and> Verdict ev = req_Verdict req \<and> SHA256 ev = req_SHA256 req"
proof -
  obtain sealer mw where c: "bt_app b = container sv cfg sealer mw"
    using boots_on_memory_cases [OF assms(1)] by metis
  show ?thesis
    using assms(2-6)
    by (auto simp: c recordVerifyEvent_def on_store_def dispatch_store_def mem_AppendVerifyEvent_def)
qed

theorem evidence_recorded_for_caller_witness:
  "\<exists>y'. recordVerifyEvent sample_app sample_world ((sample_caller ''verify-audit:write'')\<lparr>BodyVerifyEvent :=
      Inr \<lparr>req_TS = [], req_IP = [], req_UserAgent = [], req_SizeBytes = 1, req_SHA256 = [], req_Verdict = ''valid'',
        req_CorrelationID = [], req_SessionID = []\<rparr>\<rparr>) sample_after = (Reply StatusCreated (EventIdBody ''01J''), y')"
proof -
  obtain m where m: "st sample_after = InMemory m" using sample_facts(1) by blast
  let ?c = "(sample_caller ''verify-audit:write'')\<lparr>BodyVerifyEvent :=
      Inr \<lparr>req_TS = [], req_IP = [], req_UserAgent = [], req_SizeBytes = 1, req_SHA256 = [], req_Verdict = ''valid'',
        req_CorrelationID = [], req_SessionID = []\<rparr>\<rparr>"
  have "HasScopeLevel (User ?c) ''verify-audit'' ''write''" by (simp add: sample_caller_def)
  moreover have "BodyVerifyEvent ?c = Inr \<lparr>req_TS = [], req_IP = [], req_UserAgent = [], req_SizeBytes = 1, req_SHA256 = [],
      req_Verdict = ''valid'', req_CorrelationID = [], req_SessionID = []\<rparr>" by simp
  moreover have "ulid sample_world = ''01J''" by (simp add: sample_world_def)
  ultimately show ?thesis
    using evidence_recorded_for_caller [OF sample_boots m, of ?c _ sample_world "now sample_world"] by fastforce
qed

end
